theory Spec2Isabelle
  imports Main "HOL-Library.Sublist"
begin

section \<open>Strings as the Python code uses them\<close>

text \<open>
  Python \<open>str\<close> values are modelled as \<open>string\<close> (a list of characters). The helpers
  below are the \<open>str\<close> methods the proxy calls. \<open>str.lower\<close> is modelled on the ASCII
  letters; every other character is left as it is.
\<close>

definition lower_char :: "char \<Rightarrow> char" where
  "lower_char c =
     (case map_of (zip ''ABCDEFGHIJKLMNOPQRSTUVWXYZ'' ''abcdefghijklmnopqrstuvwxyz'') c of
        Some d \<Rightarrow> d
      | None \<Rightarrow> c)"

definition str_lower :: "string \<Rightarrow> string" where
  "str_lower s = map lower_char s"

text \<open>\<open>needle in hay\<close>: scan the haystack from the left for a position where the needle starts.\<close>

fun str_contains :: "string \<Rightarrow> string \<Rightarrow> bool" where
  "str_contains [] needle = (needle = [])"
| "str_contains (c # cs) needle = (prefix needle (c # cs) \<or> str_contains cs needle)"

definition startswith :: "string \<Rightarrow> string \<Rightarrow> bool" where
  "startswith s pre = prefix pre s"

text \<open>\<open>s.split(sep)\<close> for a one-character separator: never empty, keeps empty fields.\<close>

fun split_on :: "char \<Rightarrow> string \<Rightarrow> string list" where
  "split_on sep [] = [[]]"
| "split_on sep (c # cs) =
     (if c = sep then [] # split_on sep cs
      else (case split_on sep cs of
              [] \<Rightarrow> [[c]]
            | p # ps \<Rightarrow> (c # p) # ps))"

text \<open>\<open>s.split(sep, 1)\<close>: at most one split, at the first separator.\<close>

fun split_once :: "char \<Rightarrow> string \<Rightarrow> string list" where
  "split_once sep [] = [[]]"
| "split_once sep (c # cs) =
     (if c = sep then [[], cs]
      else (case split_once sep cs of
              [] \<Rightarrow> [[c]]
            | p # ps \<Rightarrow> (c # p) # ps))"


text \<open>\<open>sep.join(xs)\<close>.\<close>

fun str_join :: "string \<Rightarrow> string list \<Rightarrow> string" where
  "str_join sep [] = []"
| "str_join sep [x] = x"
| "str_join sep (x # y # ys) = x @ sep @ str_join sep (y # ys)"

text \<open>\<open>s.replace(old, new)\<close> for a one-character \<open>old\<close>.\<close>

definition str_replace :: "char \<Rightarrow> string \<Rightarrow> string \<Rightarrow> string" where
  "str_replace old new s = concat (map (\<lambda>c. if c = old then new else [c]) s)"

text \<open>Decimal rendering of a non-negative integer, as an f-string prints it.\<close>

fun str_nat :: "nat \<Rightarrow> string" where
  "str_nat n =
     (if n < 10 then [''0123456789'' ! n]
      else str_nat (n div 10) @ [''0123456789'' ! (n mod 10)])"

text \<open>\<open>os.path.basename\<close>: what follows the last slash.\<close>

definition basename :: "string \<Rightarrow> string" where
  "basename p = rev (takeWhile (\<lambda>c. c \<noteq> CHR ''/'') (rev p))"

section \<open>Exceptions, configuration, paths and the file system\<close>

datatype py_error =
    TypeError
  | OSError
  | FileNotFoundError
  | RegexError
  | RequestError

text \<open>
  \<open>CONFIG\<close> (utils/config.py) is a dict; only the keys the modelled functions read are
  kept, each absent (\<open>None\<close>) or present. \<open>get_config\<close> takes the looked-up entry and the
  default.
\<close>

record config =
  storage_path_resolved :: "string option"
  cache_retention_enabled :: "bool option"
  cache_days :: "int option"
  passthrough_mode :: "bool option"

definition get_config :: "'a option \<Rightarrow> 'a \<Rightarrow> 'a" where
  "get_config entry dflt = (case entry of None \<Rightarrow> dflt | Some v \<Rightarrow> v)"

text \<open>
  A \<open>pathlib\<close> path on POSIX: whether it starts at the root, and its components. Building
  a path from a string drops empty and \<open>.\<close> components and keeps \<open>..\<close>; joining with an
  absolute right operand discards the left one.
\<close>

record ppath =
  anchored :: bool
  parts :: "string list"

definition Path :: "string \<Rightarrow> ppath" where
  "Path s = \<lparr>anchored = startswith s ''/'',
            parts = filter (\<lambda>c. c \<noteq> [] \<and> c \<noteq> ''.'') (split_on CHR ''/'' s)\<rparr>"

definition path_div :: "ppath \<Rightarrow> string \<Rightarrow> ppath" where
  "path_div p s =
     (let q = Path s
      in if anchored q then q else \<lparr>anchored = anchored p, parts = parts p @ parts q\<rparr>)"

definition path_str :: "ppath \<Rightarrow> string" where
  "path_str p =
     (if anchored p then CHR ''/'' # str_join ''/'' (parts p)
      else if parts p = [] then ''.''
      else str_join ''/'' (parts p))"

definition path_name :: "ppath \<Rightarrow> string" where
  "path_name p = (if parts p = [] then [] else last (parts p))"

text \<open>\<open>PurePath.suffix\<close>: from the last dot of the name, unless that dot is first or last.\<close>

definition name_suffix :: "string \<Rightarrow> string" where
  "name_suffix name =
     (let ext = rev (takeWhile (\<lambda>c. c \<noteq> CHR ''.'') (rev name))
      in if CHR ''.'' \<in> set name \<and> ext \<noteq> [] \<and> length ext + 1 < length name
         then CHR ''.'' # ext else [])"

text \<open>\<open>PurePath.with_suffix\<close>: replaces the suffix of the name, or appends when there is none.\<close>

definition with_suffix :: "ppath \<Rightarrow> string \<Rightarrow> ppath" where
  "with_suffix p sfx =
     (let name = path_name p;
          old_suffix = name_suffix name;
          new_name = take (length name - length old_suffix) name @ sfx
      in p\<lparr>parts := butlast (parts p) @ [new_name]\<rparr>)"

text \<open>
  The file system: the working directory and the nodes, keyed by resolved absolute
  component lists. There are no symbolic links, and the directories a path walks through
  are taken to exist, so the kernel's resolution of \<open>..\<close> is the lexical one.
\<close>

record inode =
  is_dir :: bool
  content :: "nat list"
  st_atime :: int
  st_mtime :: int

record filesystem =
  cwd :: "string list"
  nodes :: "string list \<rightharpoonup> inode"

definition normalize :: "string list \<Rightarrow> string list" where
  "normalize ps = foldl (\<lambda>acc c. if c = ''..'' then butlast acc else acc @ [c]) [] ps"

definition resolve :: "filesystem \<Rightarrow> ppath \<Rightarrow> string list" where
  "resolve fs p = normalize ((if anchored p then [] else cwd fs) @ parts p)"

text \<open>\<open>Path.resolve()\<close>.\<close>

definition path_resolve :: "filesystem \<Rightarrow> ppath \<Rightarrow> ppath" where
  "path_resolve fs p = \<lparr>anchored = True, parts = resolve fs p\<rparr>"

definition path_exists :: "filesystem \<Rightarrow> ppath \<Rightarrow> bool" where
  "path_exists fs p = (nodes fs (resolve fs p) \<noteq> None)"

definition stat :: "filesystem \<Rightarrow> ppath \<Rightarrow> py_error + inode" where
  "stat fs p = (case nodes fs (resolve fs p) of None \<Rightarrow> Inl FileNotFoundError | Some n \<Rightarrow> Inr n)"

text \<open>\<open>Path.unlink()\<close>: removes a file; raises on a missing path or a directory.\<close>

definition unlink :: "filesystem \<Rightarrow> ppath \<Rightarrow> py_error + filesystem" where
  "unlink fs p =
     (case nodes fs (resolve fs p) of
        None \<Rightarrow> Inl FileNotFoundError
      | Some n \<Rightarrow> if is_dir n then Inl OSError
                  else Inr (fs\<lparr>nodes := (nodes fs)(resolve fs p := None)\<rparr>))"

text \<open>
  \<open>Path.mkdir(parents=True, exist_ok=True)\<close> at time \<open>now\<close>: raises when a component is a
  file, creates the missing directories otherwise.
\<close>

definition mkdir_parents :: "int \<Rightarrow> filesystem \<Rightarrow> ppath \<Rightarrow> py_error + filesystem" where
  "mkdir_parents now fs p =
     (let d = resolve fs p
      in if list_ex (\<lambda>q. case nodes fs q of None \<Rightarrow> False | Some n \<Rightarrow> \<not> is_dir n) (prefixes d)
         then Inl OSError
         else Inr (fs\<lparr>nodes := (\<lambda>q. if q \<in> set (prefixes d) \<and> nodes fs q = None
                                      then Some \<lparr>is_dir = True, content = [], st_atime = now, st_mtime = now\<rparr>
                                      else nodes fs q)\<rparr>))"

section \<open>Mirror registry (services/mirrors.py)\<close>

text \<open>
  \<open>MIRRORS_CACHE\<close> is a dict \<open>name \<rightarrow> {'urls': [...], 'status': ...}\<close>.
\<close>

record mirror_entry =
  urls :: "string list"
  status :: string

type_synonym mirrors_cache = "string \<rightharpoonup> mirror_entry"

text \<open>\<open>get_all_mirrors\<close>: only the entries whose status is \<open>'approved'\<close>, as \<open>name \<rightarrow> urls\<close>.\<close>

definition get_all_mirrors :: "mirrors_cache \<Rightarrow> (string \<rightharpoonup> string list)" where
  "get_all_mirrors cache =
     (\<lambda>name. case cache name of
        None \<Rightarrow> None
      | Some data \<Rightarrow> if status data = ''approved'' then Some (urls data) else None)"

definition get_upstream_key :: "mirrors_cache \<Rightarrow> string \<Rightarrow> string \<Rightarrow> string" where
  "get_upstream_key cache distro package_path =
     (let path_lower = str_lower package_path;
          mirrors = get_all_mirrors cache
      in if str_contains path_lower ''security''
         then (let sec_key = distro @ ''-security''
               in if sec_key \<in> dom mirrors then sec_key else distro)
         else distro)"

text \<open>
  The resolver \<open>is_self\<close> talks to: \<open>socket.gethostbyname\<close> (\<open>None\<close> when it raises),
  \<open>socket.gethostname\<close>, and \<open>socket.getaddrinfo\<close> reduced to the address \<open>info[4][0]\<close> of
  every entry (\<open>None\<close> when it raises).
\<close>

record resolver =
  gethostbyname :: "string \<Rightarrow> string option"
  gethostname :: string
  getaddrinfo :: "string \<Rightarrow> string list option"

definition is_self :: "resolver \<Rightarrow> string \<Rightarrow> bool" where
  "is_self dns host =
     (let hostname = hd (split_on CHR '':'' host)
      in if hostname \<in> set [''localhost'', ''127.0.0.1'', ''::1'', ''0.0.0.0''] then True
         else (case gethostbyname dns hostname of
                 None \<Rightarrow> False
               | Some host_ip \<Rightarrow>
                   (let local_hostname = gethostname dns;
                        ips1 = (case gethostbyname dns local_hostname of
                                  None \<Rightarrow> []
                                | Some ip \<Rightarrow> [ip]);
                        ips2 = (case getaddrinfo dns local_hostname of
                                  None \<Rightarrow> []
                                | Some infos \<Rightarrow> filter (\<lambda>a. a \<noteq> []) infos)
                    in host_ip \<in> set (ips1 @ ips2))))"



section \<open>Cache engine (services/cache\_manager.py)\<close>

text \<open>
  \<open>is_cache_valid\<close> at wall-clock time \<open>now\<close> (seconds). The \<open>try\<close> reads \<open>st_atime\<close>; its
  handler reads \<open>st_mtime\<close> with a second \<open>stat\<close>, whose exception is not caught.
\<close>

definition is_cache_valid :: "config \<Rightarrow> int \<Rightarrow> filesystem \<Rightarrow> ppath \<Rightarrow> py_error + bool" where
  "is_cache_valid cfg now fs cache_path =
     (if \<not> path_exists fs cache_path then Inr False
      else if \<not> get_config (cache_retention_enabled cfg) True then Inr True
      else (let days = get_config (cache_days cfg) 7;
                last_access =
                  (case stat fs cache_path of
                     Inr st \<Rightarrow> Inr (st_atime st)
                   | Inl _ \<Rightarrow> (case stat fs cache_path of
                                Inr st \<Rightarrow> Inr (st_mtime st)
                              | Inl e \<Rightarrow> Inl e))
            in case last_access of
                 Inl e \<Rightarrow> Inl e
               | Inr t \<Rightarrow> Inr (now - t < days * 86400)))"

section \<open>Blacklist (services/cache\_manager.py)\<close>

text \<open>
  \<open>re.search(regex, filename, re.IGNORECASE)\<close> belongs to the Python library, so the
  blacklist functions take it as a parameter: \<open>Inl\<close> when it raises \<open>re.error\<close> on the
  regex, \<open>Inr\<close> whether a match was found otherwise.
\<close>

type_synonym re_search = "string \<Rightarrow> string \<Rightarrow> py_error + bool"

text \<open>\<open>pattern.replace('.', '\.').replace('*', '.*')\<close>; \<open>CHR 0x5C\<close> is the backslash.\<close>

definition glob_regex :: "string \<Rightarrow> string" where
  "glob_regex pattern =
     str_replace CHR ''*'' ''.*'' (str_replace CHR ''.'' [CHR 0x5C, CHR ''.''] pattern)"

text \<open>
  The body of the \<open>try\<close> for one pattern: \<open>Inr True\<close> is \<open>return True\<close>, \<open>Inr False\<close> falls
  through to the next pattern, \<open>Inl\<close> is an exception.
\<close>

definition match_pattern :: "re_search \<Rightarrow> string \<Rightarrow> string \<Rightarrow> py_error + bool" where
  "match_pattern search pattern filename =
     (if CHR ''*'' \<in> set pattern
      then (case search (glob_regex pattern) filename of
              Inl e \<Rightarrow> Inl e
            | Inr found \<Rightarrow> Inr found)
      else Inr (str_contains (str_lower filename) (str_lower pattern)))"

text \<open>
  \<open>is_blacklisted\<close> over \<open>BLACKLIST_PATTERNS\<close>; the bare \<open>except: pass\<close> turns an exception
  into the next iteration.
\<close>

fun is_blacklisted :: "re_search \<Rightarrow> string list \<Rightarrow> string \<Rightarrow> py_error + bool" where
  "is_blacklisted search [] filename = Inr False"
| "is_blacklisted search (pattern # rest) filename =
     (case match_pattern search pattern filename of
        Inr True \<Rightarrow> Inr True
      | Inr False \<Rightarrow> is_blacklisted search rest filename
      | Inl e \<Rightarrow> is_blacklisted search rest filename)"

text \<open>
  The blacklist as the specification words it: every \<open>.\<close> escaped and every \<open>*\<close> replaced
  by \<open>.*\<close>, character by character, then a regex search; a substring test on the
  lowercased strings for a pattern without \<open>*\<close>.
\<close>

definition spec_regex :: "string \<Rightarrow> string" where
  "spec_regex pattern =
     concat (map (\<lambda>c. if c = CHR ''.'' then [CHR 0x5C, CHR ''.'']
                      else if c = CHR ''*'' then ''.*'' else [c]) pattern)"

definition spec_matches :: "re_search \<Rightarrow> string \<Rightarrow> string \<Rightarrow> bool" where
  "spec_matches search pattern filename =
     (if CHR ''*'' \<in> set pattern
      then search (spec_regex pattern) filename = Inr True
      else (\<exists>pre suf. str_lower filename = pre @ str_lower pattern @ suf))"

text \<open>
  A search function to run the blacklist on concrete inputs. On a regex made of ordinary
  characters, \<open>\.\<close> and \<open>.*\<close> it searches as \<open>re.search\<close> with \<open>re.IGNORECASE\<close> does; every
  other regex it reports as an error, as Python does for an unbalanced parenthesis.
\<close>

datatype rx_item = Lit char | AnyRun

fun rx_parse :: "string \<Rightarrow> rx_item list option" where
  "rx_parse [] = Some []"
| "rx_parse (c # cs) =
     (if c = CHR 0x5C
      then (case cs of
              [] \<Rightarrow> None
            | d # ds \<Rightarrow> if d = CHR ''.'' then map_option (Cons (Lit d)) (rx_parse ds) else None)
      else if c = CHR ''.''
      then (case cs of
              [] \<Rightarrow> None
            | d # ds \<Rightarrow> if d = CHR ''*'' then map_option (Cons AnyRun) (rx_parse ds) else None)
      else if c \<in> set ''*+?()[]{}|^$'' then None
      else map_option (Cons (Lit c)) (rx_parse cs))"

fun rx_match_here :: "rx_item list \<Rightarrow> string \<Rightarrow> bool" where
  "rx_match_here [] t = True"
| "rx_match_here (Lit c # r) [] = False"
| "rx_match_here (Lit c # r) (d # t) = (lower_char c = lower_char d \<and> rx_match_here r t)"
| "rx_match_here (AnyRun # r) [] = rx_match_here r []"
| "rx_match_here (AnyRun # r) (d # t) =
     (rx_match_here r (d # t) \<or> (d \<noteq> CHR 0x0A \<and> rx_match_here (AnyRun # r) t))"

fun rx_search :: "rx_item list \<Rightarrow> string \<Rightarrow> bool" where
  "rx_search r [] = rx_match_here r []"
| "rx_search r (d # t) = (rx_match_here r (d # t) \<or> rx_search r t)"

definition sample_search :: re_search where
  "sample_search regex text =
     (case rx_parse regex of
        None \<Rightarrow> Inl RegexError
      | Some r \<Rightarrow> Inr (rx_search r text))"

section \<open>Fetch and cache (services/cache\_manager.py)\<close>

text \<open>
  What \<open>requests.get(url, stream=True, ...)\<close> gives: a timeout, another
  \<open>RequestException\<close> with its message, or a response. The body of a response is the
  chunks \<open>iter_content\<close> yields, and whether it raises after the last of them.
\<close>

type_synonym headers = "(string \<times> string) list"

record upstream_response =
  status_code :: nat
  up_headers :: headers
  body_chunks :: "nat list list"
  body_fails :: bool

datatype fetch_result =
    Timeout
  | RequestException string
  | Responded upstream_response

text \<open>
  A Flask \<open>Response\<close>: status, headers and the body, which is a text or one of the
  generators of \<open>stream_and_cache\<close> with the variables it closes over.
\<close>

datatype body =
    Text string
  | NoBody
  | GeneratePartial upstream_response
  | GenerateCached ppath ppath upstream_response
  | GenerateStream upstream_response

record response =
  rsp_status :: nat
  rsp_headers :: headers
  rsp_body :: body

datatype urls_arg = UrlStr string | UrlList "string list"

definition excluded_headers :: "string list" where
  "excluded_headers = [''transfer-encoding'', ''connection'', ''content-encoding'', ''content-length'']"

definition sanitize_headers :: "headers \<Rightarrow> headers" where
  "sanitize_headers hs = filter (\<lambda>(k, v). str_lower k \<notin> set excluded_headers) hs"

text \<open>
  The \<open>for url in urls\<close> loop. \<open>get i url hdrs\<close> is the outcome of the \<open>i\<close>-th call of
  \<open>requests.get\<close>; the second component of the result lists the URLs requested, in order.
\<close>

fun fetch_urls ::
  "(nat \<Rightarrow> string \<Rightarrow> headers \<Rightarrow> fetch_result) \<Rightarrow> bool \<Rightarrow> ppath \<Rightarrow> headers \<Rightarrow> nat \<Rightarrow> string option
     \<Rightarrow> string list \<Rightarrow> response \<times> string list" where
  "fetch_urls get should_cache cache_path hdrs i last_error [] =
     (\<lparr>rsp_status = 502, rsp_headers = [],
       rsp_body = Text (''All upstream mirrors failed. Last error: '' @
                        (case last_error of None \<Rightarrow> ''None'' | Some e \<Rightarrow> e))\<rparr>, [])"
| "fetch_urls get should_cache cache_path hdrs i last_error (url # rest) =
     (let (rsp, requested) =
        (case get i url hdrs of
           Timeout \<Rightarrow> fetch_urls get should_cache cache_path hdrs (Suc i) (Some ''Timeout'') rest
         | RequestException e \<Rightarrow> fetch_urls get should_cache cache_path hdrs (Suc i) (Some e) rest
         | Responded r \<Rightarrow>
             if status_code r = 404
             then fetch_urls get should_cache cache_path hdrs (Suc i) (Some ''404 Not Found'') rest
             else if status_code r \<in> set [200, 206, 304]
             then (let resp_headers = sanitize_headers (up_headers r)
                   in if status_code r = 304
                      then (\<lparr>rsp_status = 304, rsp_headers = resp_headers, rsp_body = NoBody\<rparr>, [])
                      else if status_code r = 206
                      then (\<lparr>rsp_status = 206, rsp_headers = resp_headers,
                             rsp_body = GeneratePartial r\<rparr>, [])
                      else if should_cache
                      then (let temp_path = with_suffix cache_path ''.tmp''
                            in (\<lparr>rsp_status = 200, rsp_headers = resp_headers,
                                 rsp_body = GenerateCached temp_path cache_path r\<rparr>, []))
                      else (\<lparr>rsp_status = 200, rsp_headers = resp_headers,
                             rsp_body = GenerateStream r\<rparr>, []))
             else fetch_urls get should_cache cache_path hdrs (Suc i)
                    (Some (''HTTP '' @ str_nat (status_code r))) rest)
      in (rsp, url # requested))"

definition stream_and_cache ::
  "(nat \<Rightarrow> string \<Rightarrow> headers \<Rightarrow> fetch_result) \<Rightarrow> re_search \<Rightarrow> string list \<Rightarrow> urls_arg \<Rightarrow> ppath
     \<Rightarrow> headers \<Rightarrow> response \<times> string list" where
  "stream_and_cache get search BLACKLIST_PATTERNS urls0 cache_path hdrs =
     (let url_list = (case urls0 of UrlStr u \<Rightarrow> [u] | UrlList us \<Rightarrow> us);
          filename = path_name cache_path;
          fields = split_once CHR ''_'' filename;
          real_filename = (if length fields > 1 then fields ! 1 else filename);
          should_cache = (case is_blacklisted search BLACKLIST_PATTERNS real_filename of
                            Inr b \<Rightarrow> \<not> b
                          | Inl e \<Rightarrow> False)
      in fetch_urls get should_cache cache_path hdrs 0 None url_list)"

text \<open>
  The error \<open>stream_and_cache\<close> is to record for a failed attempt, in the words of the
  specification, and which outcomes are failures.
\<close>

definition is_failure :: "fetch_result \<Rightarrow> bool" where
  "is_failure res =
     (case res of
        Timeout \<Rightarrow> True
      | RequestException e \<Rightarrow> True
      | Responded r \<Rightarrow> status_code r \<noteq> 200 \<and> status_code r \<noteq> 206 \<and> status_code r \<noteq> 304)"

definition error_string :: "fetch_result \<Rightarrow> string" where
  "error_string res =
     (case res of
        Timeout \<Rightarrow> ''Timeout''
      | RequestException e \<Rightarrow> e
      | Responded r \<Rightarrow> if status_code r = 404 then ''404 Not Found''
                       else ''HTTP '' @ str_nat (status_code r))"

section \<open>The caching generator (\<open>generate_cached\<close>)\<close>

text \<open>
  The file operations of the generator at time \<open>now\<close>. \<open>open(p, 'wb')\<close> truncates or
  creates; \<open>write\<close> appends; \<open>rename\<close> moves a node over the target.
\<close>

definition open_wb :: "int \<Rightarrow> filesystem \<Rightarrow> ppath \<Rightarrow> py_error + filesystem" where
  "open_wb now fs p =
     (case nodes fs (resolve fs p) of
        None \<Rightarrow> Inr (fs\<lparr>nodes := (nodes fs)(resolve fs p \<mapsto>
                           \<lparr>is_dir = False, content = [], st_atime = now, st_mtime = now\<rparr>)\<rparr>)
      | Some n \<Rightarrow> if is_dir n then Inl OSError
                  else Inr (fs\<lparr>nodes := (nodes fs)(resolve fs p \<mapsto> n\<lparr>content := [], st_mtime := now\<rparr>)\<rparr>))"

definition write_bytes :: "int \<Rightarrow> filesystem \<Rightarrow> ppath \<Rightarrow> nat list \<Rightarrow> filesystem" where
  "write_bytes now fs p bs =
     (case nodes fs (resolve fs p) of
        None \<Rightarrow> fs
      | Some n \<Rightarrow> fs\<lparr>nodes := (nodes fs)(resolve fs p \<mapsto>
                         n\<lparr>content := content n @ bs, st_mtime := now\<rparr>)\<rparr>)"

definition rename :: "filesystem \<Rightarrow> ppath \<Rightarrow> ppath \<Rightarrow> py_error + filesystem" where
  "rename fs src dst =
     (case nodes fs (resolve fs src) of
        None \<Rightarrow> Inl FileNotFoundError
      | Some n \<Rightarrow>
          (case nodes fs (resolve fs dst) of
             None \<Rightarrow> Inr (fs\<lparr>nodes := (nodes fs)(resolve fs src := None, resolve fs dst \<mapsto> n)\<rparr>)
           | Some m \<Rightarrow> if is_dir m then Inl OSError
                       else if resolve fs src = resolve fs dst then Inr fs
                       else Inr (fs\<lparr>nodes := (nodes fs)(resolve fs src := None, resolve fs dst \<mapsto> n)\<rparr>)))"

text \<open>
  What the surroundings do to one run of the generator: \<open>open\<close> may raise, the write of
  the \<open>i\<close>-th chunk may raise, the client may be gone at the \<open>i\<close>-th \<open>yield\<close> (the generator is
  then closed, which raises \<open>GeneratorExit\<close> there), and the rename may raise.
\<close>

record io_env =
  open_fails :: bool
  write_fails :: "nat \<Rightarrow> bool"
  client_gone :: "nat \<Rightarrow> bool"
  rename_fails :: bool

datatype loop_end = LoopDone | LoopRaised | LoopClosed

text \<open>
  The \<open>for chunk in response.iter_content(...)\<close> loop inside \<open>with open(temp_path, 'wb')\<close>.
  The last argument collects every state of the file system, in order.
\<close>

fun write_chunks ::
  "io_env \<Rightarrow> int \<Rightarrow> ppath \<Rightarrow> bool \<Rightarrow> nat \<Rightarrow> nat list list \<Rightarrow> filesystem \<Rightarrow> filesystem list
     \<Rightarrow> loop_end \<times> filesystem \<times> filesystem list" where
  "write_chunks env now temp_path fails i [] fs trace =
     (if fails then (LoopRaised, fs, trace) else (LoopDone, fs, trace))"
| "write_chunks env now temp_path fails i (chunk # rest) fs trace =
     (if chunk = [] then write_chunks env now temp_path fails (Suc i) rest fs trace
      else if write_fails env i then (LoopRaised, fs, trace)
      else (let fs' = write_bytes now fs temp_path chunk
            in if client_gone env i then (LoopClosed, fs', trace @ [fs'])
               else write_chunks env now temp_path fails (Suc i) rest fs' (trace @ [fs'])))"

datatype gen_end = Committed | CaughtError | ClientClosed | HandlerRaised

text \<open>The \<open>except Exception\<close> handler: unlink the temporary file if it exists.\<close>

definition on_error :: "ppath \<Rightarrow> filesystem \<Rightarrow> filesystem list \<Rightarrow> gen_end \<times> filesystem \<times> filesystem list" where
  "on_error temp_path fs trace =
     (if path_exists fs temp_path
      then (case unlink fs temp_path of
              Inl e \<Rightarrow> (HandlerRaised, fs, trace)
            | Inr fs' \<Rightarrow> (CaughtError, fs', trace @ [fs']))
      else (CaughtError, fs, trace))"

text \<open>
  One run of \<open>generate_cached\<close> to its end: how it ended, the final file system and every
  state of the file system on the way. \<open>GeneratorExit\<close> is not an \<open>Exception\<close>, so the
  handler does not run when the client is gone.
\<close>

definition generate_cached ::
  "io_env \<Rightarrow> int \<Rightarrow> ppath \<Rightarrow> ppath \<Rightarrow> upstream_response \<Rightarrow> filesystem
     \<Rightarrow> gen_end \<times> filesystem \<times> filesystem list" where
  "generate_cached env now temp_path cache_path r fs =
     (case (if open_fails env then Inl OSError else open_wb now fs temp_path) of
        Inl e \<Rightarrow> on_error temp_path fs []
      | Inr fs1 \<Rightarrow>
          (case write_chunks env now temp_path (body_fails r) 0 (body_chunks r) fs1 [fs1] of
             (LoopRaised, fs2, trace) \<Rightarrow> on_error temp_path fs2 trace
           | (LoopClosed, fs2, trace) \<Rightarrow> (ClientClosed, fs2, trace)
           | (LoopDone, fs2, trace) \<Rightarrow>
               (case (if rename_fails env then Inl OSError else rename fs2 temp_path cache_path) of
                  Inl e \<Rightarrow> on_error temp_path fs2 trace
                | Inr fs3 \<Rightarrow> (Committed, fs3, trace @ [fs3]))))"

text \<open>
  A state of the file system that differs from \<open>fs0\<close> at most at the node \<open>rt\<close>.
\<close>

definition confined_to :: "string list \<Rightarrow> filesystem \<Rightarrow> filesystem \<Rightarrow> bool" where
  "confined_to rt fs0 s \<longleftrightarrow> cwd s = cwd fs0 \<and> (\<forall>q. q \<noteq> rt \<longrightarrow> nodes s q = nodes fs0 q)"

section \<open>Cache paths and the cache endpoints\<close>

text \<open>
  \<open>get_cache_path\<close> (services/cache\_manager.py). \<open>hashlib.md5(...).hexdigest()\<close> is a
  parameter. The result is the path and the file system after \<open>mkdir\<close>.
\<close>

definition get_cache_path ::
  "config \<Rightarrow> (string \<Rightarrow> string) \<Rightarrow> int \<Rightarrow> filesystem \<Rightarrow> string \<Rightarrow> string
     \<Rightarrow> py_error + (ppath \<times> filesystem)" where
  "get_cache_path cfg md5_hexdigest now fs distro path =
     (case storage_path_resolved cfg of
        None \<Rightarrow> Inl TypeError
      | Some storage \<Rightarrow>
          (let storage_path = Path storage;
               path_hash = md5_hexdigest path;
               filename = (if basename path \<noteq> [] then basename path else ''index'');
               cache_dir = path_div (path_div storage_path distro) (take 2 path_hash)
           in case mkdir_parents now fs cache_dir of
                Inl e \<Rightarrow> Inl e
              | Inr fs' \<Rightarrow> Inr (path_div cache_dir (path_hash @ ''_'' @ filename), fs')))"

text \<open>A path component that \<open>pathlib\<close> keeps as it is: not empty, no slash, not \<open>.\<close>.\<close>

definition plain_segment :: "string \<Rightarrow> bool" where
  "plain_segment s \<longleftrightarrow> s \<noteq> [] \<and> CHR ''/'' \<notin> set s \<and> s \<noteq> ''.''"

text \<open>
  \<open>delete_cached_file\<close> (services/cache\_manager.py): \<open>(result, file system)\<close>. An exception
  of \<open>unlink\<close> is caught and gives \<open>False\<close>.
\<close>

definition delete_cached_file :: "config \<Rightarrow> filesystem \<Rightarrow> string \<Rightarrow> bool \<times> filesystem" where
  "delete_cached_file cfg fs rel_path =
     (case storage_path_resolved cfg of
        None \<Rightarrow> (False, fs)
      | Some storage_path_str \<Rightarrow>
          if storage_path_str = [] then (False, fs)
          else (let full_path = path_div (Path storage_path_str) rel_path
                in if \<not> startswith (path_str full_path)
                                    (path_str (path_resolve fs (Path storage_path_str)))
                   then (False, fs)
                   else if path_exists fs full_path
                   then (case unlink fs full_path of
                           Inl e \<Rightarrow> (False, fs)
                         | Inr fs' \<Rightarrow> (True, fs'))
                   else (False, fs)))"

text \<open>
  The two routes (utils/routes.py). A reply is a status with a text, or the file
  \<open>send_file\<close> reads, given by its resolved location.
\<close>

datatype reply =
    Reply nat string
  | SendFile "string list" string
  | JsonSuccess

definition api_download_cache :: "config \<Rightarrow> filesystem \<Rightarrow> string option \<Rightarrow> reply" where
  "api_download_cache cfg fs path_arg =
     (case path_arg of
        None \<Rightarrow> Reply 400 ''Missing path parameter''
      | Some file_path \<Rightarrow>
          if file_path = [] then Reply 400 ''Missing path parameter''
          else if str_contains file_path ''..'' \<or> startswith file_path ''/''
          then Reply 400 ''Invalid path''
          else (case storage_path_resolved cfg of
                  None \<Rightarrow> Reply 500 ''Storage not configured''
                | Some storage_path_str \<Rightarrow>
                    if storage_path_str = [] then Reply 500 ''Storage not configured''
                    else (let full_path = path_div (Path storage_path_str) file_path
                          in if \<not> path_exists fs full_path then Reply 404 ''File not found''
                             else (let filename = path_name full_path;
                                       fields = split_once CHR ''_'' filename;
                                       download_name = (if length fields > 1 then fields ! 1
                                                        else filename)
                                   in SendFile (resolve fs full_path) download_name))))"

text \<open>\<open>api_delete_cache_file\<close>, after \<open>check_auth\<close> has passed.\<close>

definition api_delete_cache_file :: "config \<Rightarrow> filesystem \<Rightarrow> string option \<Rightarrow> reply \<times> filesystem" where
  "api_delete_cache_file cfg fs path_arg =
     (case path_arg of
        None \<Rightarrow> (Reply 400 ''Missing path parameter'', fs)
      | Some file_path \<Rightarrow>
          if file_path = [] then (Reply 400 ''Missing path parameter'', fs)
          else (case delete_cached_file cfg fs file_path of
                  (True, fs') \<Rightarrow> (JsonSuccess, fs')
                | (False, fs') \<Rightarrow> (Reply 404 ''Failed to delete file (not found or invalid path)'', fs')))"

text \<open>
  Two values of the digest parameter, to run \<open>get_cache_path\<close> on concrete inputs: the MD5
  hex digest of \<open>pool/main/x.deb\<close>, and that of \<open>dists/jammy/\<close> for the other argument used.
\<close>

definition sample_md5 :: "string \<Rightarrow> string" where
  "sample_md5 p =
     (if p = ''pool/main/x.deb'' then ''4d5868c5c391a5e39a7ec67483828d1a''
      else ''76afc71c3ed36a44a118fe6b423573ed'')"

section \<open>Request router (main.py)\<close>







section \<open>Properties\<close>

subsection \<open>String helpers\<close>

lemma str_contains_sublist: "str_contains hay needle \<longleftrightarrow> sublist needle hay"
  by (induction hay) (auto simp: sublist_Cons_right)

lemma str_contains_iff: "str_contains hay needle \<longleftrightarrow> (\<exists>pre suf. hay = pre @ needle @ suf)"
  by (simp add: str_contains_sublist sublist_def)

subsection \<open>Upstream key selection\<close>

lemma approved_dom:
  "name \<in> dom (get_all_mirrors cache) \<longleftrightarrow> (\<exists>e. cache name = Some e \<and> status e = ''approved'')"
  by (auto simp: get_all_mirrors_def dom_def split: option.splits)

text \<open>
  C7: \<open>get_upstream_key\<close> returns \<open>distro-security\<close> exactly when the lowercased package
  path contains the substring \<open>security\<close> and \<open>distro-security\<close> is an approved mirror;
  in every other case it returns \<open>distro\<close> unchanged.
\<close>

theorem get_upstream_key_security_iff:
  "(get_upstream_key cache distro package_path = distro @ ''-security'' \<longleftrightarrow>
      (\<exists>pre suf. str_lower package_path = pre @ ''security'' @ suf) \<and>
      (\<exists>e. cache (distro @ ''-security'') = Some e \<and> status e = ''approved''))
   \<and> (get_upstream_key cache distro package_path \<noteq> distro @ ''-security'' \<longrightarrow>
        get_upstream_key cache distro package_path = distro)"
  by (auto simp: get_upstream_key_def Let_def approved_dom str_contains_iff)

theorem get_upstream_key_security_iff_witness:
  "get_upstream_key
     [''ubuntu'' \<mapsto> \<lparr>urls = [''http://archive.ubuntu.com/ubuntu''], status = ''approved''\<rparr>,
      ''ubuntu-security'' \<mapsto> \<lparr>urls = [''http://security.ubuntu.com/ubuntu''], status = ''approved''\<rparr>]
     ''ubuntu'' ''dists/Jammy-Security/InRelease'' = ''ubuntu-security''
   \<and> get_upstream_key
     [''ubuntu'' \<mapsto> \<lparr>urls = [''http://archive.ubuntu.com/ubuntu''], status = ''approved''\<rparr>,
      ''ubuntu-security'' \<mapsto> \<lparr>urls = [''http://security.ubuntu.com/ubuntu''], status = ''pending''\<rparr>]
     ''ubuntu'' ''dists/Jammy-Security/InRelease'' = ''ubuntu''"
proof -
  let ?c1 = "[''ubuntu'' \<mapsto> \<lparr>urls = [''http://archive.ubuntu.com/ubuntu''], status = ''approved''\<rparr>,
      ''ubuntu-security'' \<mapsto> \<lparr>urls = [''http://security.ubuntu.com/ubuntu''], status = ''approved''\<rparr>]"
  let ?c2 = "[''ubuntu'' \<mapsto> \<lparr>urls = [''http://archive.ubuntu.com/ubuntu''], status = ''approved''\<rparr>,
      ''ubuntu-security'' \<mapsto> \<lparr>urls = [''http://security.ubuntu.com/ubuntu''], status = ''pending''\<rparr>]"
  have low: "str_lower ''dists/Jammy-Security/InRelease'' = ''dists/jammy-'' @ ''security'' @ ''/inrelease''"
    by (simp add: str_lower_def lower_char_def)
  have ex: "\<exists>pre suf. str_lower ''dists/Jammy-Security/InRelease'' = pre @ ''security'' @ suf"
    using low by blast
  have appr: "\<exists>e. ?c1 (''ubuntu'' @ ''-security'') = Some e \<and> status e = ''approved''"
    by simp
  have a: "get_upstream_key ?c1 ''ubuntu'' ''dists/Jammy-Security/InRelease'' = ''ubuntu-security''"
    using get_upstream_key_security_iff [of ?c1 "''ubuntu''" "''dists/Jammy-Security/InRelease''"] ex appr
    by simp
  have b: "get_upstream_key ?c2 ''ubuntu'' ''dists/Jammy-Security/InRelease'' = ''ubuntu''"
    using get_upstream_key_security_iff [of ?c2 "''ubuntu''" "''dists/Jammy-Security/InRelease''"]
    by simp
  from a b show ?thesis by simp
qed

subsection \<open>Self-referencing mirrors\<close>

lemma split_on_nonempty: "split_on sep s \<noteq> []"
  by (induction s) (auto split: list.splits)



text \<open>
  The host name is cut at the first colon, so for the name \<open>::1\<close> it is the empty string:
  the entry \<open>::1\<close> of the list is never reached, and the answer is left to the resolver.
\<close>

lemma is_self_ipv6_literal: "gethostbyname dns [] = None \<Longrightarrow> \<not> is_self dns ''::1''"
  by (simp add: is_self_def)



subsection \<open>Freshness\<close>

text \<open>What \<open>is_cache_valid\<close> computes: the age is taken from \<open>st_atime\<close> alone.\<close>

lemma is_cache_valid_atime:
  "is_cache_valid cfg now fs p =
     Inr (case nodes fs (resolve fs p) of
            None \<Rightarrow> False
          | Some n \<Rightarrow> \<not> get_config (cache_retention_enabled cfg) True \<or>
                      now - st_atime n < get_config (cache_days cfg) 7 * 86400)"
  by (auto simp: is_cache_valid_def path_exists_def stat_def Let_def split: option.splits)

text \<open>
  C1: the specification takes the age of a cached file from \<open>max(atime, mtime)\<close>. On a
  file that exists, with retention enabled and a window of 7 days, last read at time 0
  and last written at time 700000, at time 700000 the age by \<open>max(atime, mtime)\<close> is 0,
  inside the window, yet \<open>is_cache_valid\<close> returns false.
\<close>

theorem is_cache_valid_ignores_mtime:
  "is_cache_valid
     \<lparr>storage_path_resolved = Some ''/srv/cache'', cache_retention_enabled = Some True,
      cache_days = Some 7, passthrough_mode = None\<rparr>
     700000
     \<lparr>cwd = [], nodes = [[''srv'', ''cache'', ''ubuntu'', ''ab'', ''abcd_x.deb''] \<mapsto>
        \<lparr>is_dir = False, content = [1, 2, 3], st_atime = 0, st_mtime = 700000\<rparr>]\<rparr>
     (Path ''/srv/cache/ubuntu/ab/abcd_x.deb'') = Inr False
   \<and> path_exists
     \<lparr>cwd = [], nodes = [[''srv'', ''cache'', ''ubuntu'', ''ab'', ''abcd_x.deb''] \<mapsto>
        \<lparr>is_dir = False, content = [1, 2, 3], st_atime = 0, st_mtime = 700000\<rparr>]\<rparr>
     (Path ''/srv/cache/ubuntu/ab/abcd_x.deb'')
   \<and> (700000::int) - max 0 700000 < 7 * 86400"
  by (simp add: is_cache_valid_def path_exists_def stat_def Let_def resolve_def normalize_def
        Path_def startswith_def get_config_def)

subsection \<open>Blacklist matching\<close>

lemma glob_regex_spec: "glob_regex pattern = spec_regex pattern"
  unfolding glob_regex_def spec_regex_def str_replace_def
  by (induction pattern) auto

lemma match_pattern_spec:
  "match_pattern search p f = Inr True \<longleftrightarrow> spec_matches search p f"
  by (auto simp: match_pattern_def spec_matches_def glob_regex_spec str_contains_iff
           split: sum.splits)

lemma is_blacklisted_exists:
  "is_blacklisted search patterns f = Inr (\<exists>p \<in> set patterns. spec_matches search p f)"
proof (induction patterns)
  case Nil
  show ?case by simp
next
  case (Cons p ps)
  show ?case
  proof (cases "match_pattern search p f")
    case (Inl e)
    with match_pattern_spec [of search p f] Cons show ?thesis by simp
  next
    case (Inr b)
    with match_pattern_spec [of search p f] Cons show ?thesis by (cases b) auto
  qed
qed

text \<open>
  C6: \<open>is_blacklisted\<close> goes through the patterns in insertion order and returns true at
  the first one that matches, false when none does. A pattern containing \<open>*\<close> is turned
  into a regex by escaping every \<open>.\<close> and replacing every \<open>*\<close> by \<open>.*\<close> and matched by a
  case-insensitive regex search; any other pattern is matched by a case-insensitive
  substring test.
\<close>

theorem is_blacklisted_first_match:
  "is_blacklisted search patterns filename =
      Inr (\<exists>p \<in> set patterns. spec_matches search p filename)
   \<and> (spec_matches search p filename \<longrightarrow>
        is_blacklisted search (before @ p # after) filename = Inr True)
   \<and> glob_regex p = spec_regex p"
  by (simp add: is_blacklisted_exists glob_regex_spec)

theorem is_blacklisted_first_match_witness:
  "spec_matches sample_search ''*.deb'' ''K.DEB''
   \<and> is_blacklisted sample_search [''*.udeb'', ''*.deb'', ''firmware''] ''K.DEB'' = Inr True
   \<and> is_blacklisted sample_search [''*.udeb'', ''firmware''] ''K.DEB'' = Inr False"
proof -
  have m: "spec_matches sample_search ''*.deb'' ''K.DEB''"
    by (simp add: spec_matches_def spec_regex_def sample_search_def lower_char_def)
  have a: "is_blacklisted sample_search ([''*.udeb''] @ ''*.deb'' # [''firmware'']) ''K.DEB'' = Inr True"
    using is_blacklisted_first_match [of sample_search "[]" "''K.DEB''" "''*.deb''"
            "[''*.udeb'']" "[''firmware'']"] m
    by blast
  have n1: "\<not> spec_matches sample_search ''*.udeb'' ''K.DEB''"
    by (simp add: spec_matches_def spec_regex_def sample_search_def lower_char_def)
  have n2: "\<not> spec_matches sample_search ''firmware'' ''K.DEB''"
    unfolding spec_matches_def str_contains_iff [symmetric]
    by (simp add: str_lower_def lower_char_def)
  have b: "is_blacklisted sample_search [''*.udeb'', ''firmware''] ''K.DEB'' = Inr False"
    using is_blacklisted_first_match [of sample_search "[''*.udeb'', ''firmware'']" "''K.DEB''"
            "''*.deb''" "[]" "[]"] n1 n2
    by simp
  from m a b show ?thesis by simp
qed

text \<open>
  C10: \<open>is_blacklisted\<close> always returns a boolean and never raises; a pattern whose
  translated regex is rejected by the regex engine is skipped: it yields no match and
  the patterns after it are still tried.
\<close>

theorem is_blacklisted_total:
  "(\<exists>b. is_blacklisted search patterns filename = Inr b)
   \<and> (CHR ''*'' \<in> set p \<and> search (glob_regex p) filename = Inl e \<longrightarrow>
        is_blacklisted search (before @ p # after) filename
          = is_blacklisted search (before @ after) filename)"
proof -
  have "\<not> spec_matches search p filename"
    if "CHR ''*'' \<in> set p" "search (glob_regex p) filename = Inl e"
    using that by (simp add: spec_matches_def glob_regex_spec)
  then show ?thesis
    by (auto simp: is_blacklisted_exists)
qed

theorem is_blacklisted_total_witness:
  "sample_search (glob_regex ''*(.deb'') ''x.deb'' = Inl RegexError
   \<and> is_blacklisted sample_search [''*(.deb'', ''*.deb''] ''x.deb''
       = is_blacklisted sample_search [''*.deb''] ''x.deb''
   \<and> is_blacklisted sample_search [''*.deb''] ''x.deb'' = Inr True"
proof -
  have e: "sample_search (glob_regex ''*(.deb'') ''x.deb'' = Inl RegexError"
    by (simp add: glob_regex_def str_replace_def sample_search_def)
  have s: "CHR ''*'' \<in> set ''*(.deb''" by simp
  have a: "is_blacklisted sample_search ([] @ ''*(.deb'' # [''*.deb'']) ''x.deb''
             = is_blacklisted sample_search ([] @ [''*.deb'']) ''x.deb''"
    using is_blacklisted_total [of sample_search "[]" "''x.deb''" "''*(.deb''" RegexError "[]" "[''*.deb'']"] e s
    by blast
  have b: "is_blacklisted sample_search [''*.deb''] ''x.deb'' = Inr True"
    by (simp add: match_pattern_def glob_regex_def str_replace_def sample_search_def lower_char_def)
  from e a b show ?thesis by simp
qed

subsection \<open>Mirror failover\<close>

lemma fetch_urls_all_fail:
  "(\<And>j. j < length url_list \<Longrightarrow> is_failure (get (i + j) (url_list ! j) hdrs)) \<Longrightarrow>
   fetch_urls get sc cp hdrs i last_error url_list =
     (\<lparr>rsp_status = 502, rsp_headers = [],
       rsp_body = Text (''All upstream mirrors failed. Last error: '' @
                        (if url_list = [] then (case last_error of None \<Rightarrow> ''None'' | Some e \<Rightarrow> e)
                         else error_string (get (i + length url_list - 1) (last url_list) hdrs)))\<rparr>,
      url_list)"
proof (induction url_list arbitrary: i last_error)
  case Nil
  show ?case by simp
next
  case (Cons url rest)
  have head: "is_failure (get i url hdrs)"
    using Cons.prems [of 0] by simp
  have tail: "\<And>j. j < length rest \<Longrightarrow> is_failure (get (Suc i + j) (rest ! j) hdrs)"
    using Cons.prems [of "Suc j" for j] by simp
  note IH = Cons.IH [OF tail]
  show ?case
  proof (cases "get i url hdrs")
    case Timeout
    then show ?thesis using IH [of "Some ''Timeout''"]
      by (cases rest) (simp_all add: error_string_def)
  next
    case (RequestException e)
    then show ?thesis using IH [of "Some e"]
      by (cases rest) (simp_all add: error_string_def)
  next
    case (Responded r)
    with head have nok: "status_code r \<noteq> 200" "status_code r \<noteq> 206" "status_code r \<noteq> 304"
      by (simp_all add: is_failure_def)
    show ?thesis
    proof (cases "status_code r = 404")
      case True
      with Responded show ?thesis using IH [of "Some ''404 Not Found''"]
        by (cases rest) (simp_all add: error_string_def)
    next
      case False
      with Responded nok show ?thesis
        using IH [of "Some (''HTTP '' @ str_nat (status_code r))"]
        by (cases rest) (simp_all add: error_string_def del: str_nat.simps)
    qed
  qed
qed

lemma fetch_urls_requested_prefix:
  "prefix (snd (fetch_urls get sc cp hdrs i last_error url_list)) url_list"
proof (induction url_list arbitrary: i last_error)
  case Nil
  show ?case by simp
next
  case (Cons url rest)
  show ?case
    using Cons.IH
    by (cases "get i url hdrs")
       (auto simp: Let_def split_beta simp del: str_nat.simps)
qed

lemma fetch_urls_first_success:
  "k < length url_list \<Longrightarrow>
   (\<And>j. j < k \<Longrightarrow> is_failure (get (i + j) (url_list ! j) hdrs)) \<Longrightarrow>
   get (i + k) (url_list ! k) hdrs = Responded r \<Longrightarrow>
   status_code r = 200 \<or> status_code r = 206 \<or> status_code r = 304 \<Longrightarrow>
   snd (fetch_urls get sc cp hdrs i last_error url_list) = take (Suc k) url_list
   \<and> rsp_status (fst (fetch_urls get sc cp hdrs i last_error url_list)) = status_code r"
proof (induction url_list arbitrary: i k last_error)
  case Nil
  then show ?case by simp
next
  case (Cons url rest)
  show ?case
  proof (cases k)
    case 0
    with Cons.prems show ?thesis
      by (auto simp: Let_def)
  next
    case (Suc k')
    have head: "is_failure (get i url hdrs)"
      using Cons.prems(2) [of 0] Suc by simp
    have k': "k' < length rest" using Cons.prems(1) Suc by simp
    have fails: "\<And>j. j < k' \<Longrightarrow> is_failure (get (Suc i + j) (rest ! j) hdrs)"
      using Cons.prems(2) [of "Suc j" for j] Suc by simp
    have succ: "get (Suc i + k') (rest ! k') hdrs = Responded r"
      using Cons.prems(3) Suc by simp
    note IH = Cons.IH [OF k' fails succ Cons.prems(4)]
    show ?thesis
    proof (cases "get i url hdrs")
      case Timeout
      then show ?thesis using IH [of "Some ''Timeout''"] Suc
        by (simp add: split_beta)
    next
      case (RequestException e)
      then show ?thesis using IH [of "Some e"] Suc
        by (simp add: split_beta)
    next
      case (Responded r0)
      with head have nok: "status_code r0 \<noteq> 200" "status_code r0 \<noteq> 206" "status_code r0 \<noteq> 304"
        by (simp_all add: is_failure_def)
      show ?thesis
      proof (cases "status_code r0 = 404")
        case True
        with Responded show ?thesis using IH [of "Some ''404 Not Found''"] Suc
          by (simp add: split_beta)
      next
        case False
        with Responded nok show ?thesis
          using IH [of "Some (''HTTP '' @ str_nat (status_code r0))"] Suc
          by (simp add: split_beta del: str_nat.simps)
      qed
    qed
  qed
qed


text \<open>
  C4: \<open>stream_and_cache\<close> requests the upstream URLs in the given order. A timeout, a
  transport error, a 404 or any other status outside 200, 206 and 304 is recorded and the
  next URL is tried; the first URL answering 200, 206 or 304 ends the loop. When every URL
  has failed the result is status 502 carrying the error of the last URL (\<open>404 Not Found\<close>
  when that one answered 404), and every URL has been requested once, in order.
\<close>

theorem stream_and_cache_failover:
  "((\<forall>j < length url_list. is_failure (get j (url_list ! j) hdrs)) \<longrightarrow>
      stream_and_cache get search pats (UrlList url_list) cache_path hdrs =
        (\<lparr>rsp_status = 502, rsp_headers = [],
          rsp_body = Text (''All upstream mirrors failed. Last error: '' @
                           (if url_list = [] then ''None''
                            else error_string (get (length url_list - 1) (last url_list) hdrs)))\<rparr>,
         url_list))
   \<and> prefix (snd (stream_and_cache get search pats (UrlList url_list) cache_path hdrs)) url_list
   \<and> (k < length url_list \<and> (\<forall>j < k. is_failure (get j (url_list ! j) hdrs)) \<and>
        get k (url_list ! k) hdrs = Responded r \<and>
        (status_code r = 200 \<or> status_code r = 206 \<or> status_code r = 304) \<longrightarrow>
        snd (stream_and_cache get search pats (UrlList url_list) cache_path hdrs) = take (Suc k) url_list
        \<and> rsp_status (fst (stream_and_cache get search pats (UrlList url_list) cache_path hdrs))
            = status_code r)"
proof (intro conjI impI)
  assume "\<forall>j < length url_list. is_failure (get j (url_list ! j) hdrs)"
  then show "stream_and_cache get search pats (UrlList url_list) cache_path hdrs =
        (\<lparr>rsp_status = 502, rsp_headers = [],
          rsp_body = Text (''All upstream mirrors failed. Last error: '' @
                           (if url_list = [] then ''None''
                            else error_string (get (length url_list - 1) (last url_list) hdrs)))\<rparr>,
         url_list)"
    using fetch_urls_all_fail [of url_list get 0 hdrs _ cache_path None]
    by (simp add: stream_and_cache_def Let_def)
next
  show "prefix (snd (stream_and_cache get search pats (UrlList url_list) cache_path hdrs)) url_list"
    by (simp add: stream_and_cache_def Let_def fetch_urls_requested_prefix)
next
  assume a: "k < length url_list \<and> (\<forall>j < k. is_failure (get j (url_list ! j) hdrs)) \<and>
        get k (url_list ! k) hdrs = Responded r \<and>
        (status_code r = 200 \<or> status_code r = 206 \<or> status_code r = 304)"
  then show "snd (stream_and_cache get search pats (UrlList url_list) cache_path hdrs) = take (Suc k) url_list"
    using fetch_urls_first_success [of k url_list get 0 hdrs r _ cache_path None]
    by (simp add: stream_and_cache_def Let_def)
  from a show "rsp_status (fst (stream_and_cache get search pats (UrlList url_list) cache_path hdrs))
            = status_code r"
    using fetch_urls_first_success [of k url_list get 0 hdrs r _ cache_path None]
    by (simp add: stream_and_cache_def Let_def)
qed

theorem stream_and_cache_failover_witness:
  "stream_and_cache
     (\<lambda>i url hdrs. Responded \<lparr>status_code = 404, up_headers = [], body_chunks = [], body_fails = False\<rparr>)
     sample_search [] (UrlList [''http://a/ubuntu/x.deb'', ''http://b/ubuntu/x.deb''])
     (Path ''/srv/cache/ubuntu/ab/abcd_x.deb'') []
   = (\<lparr>rsp_status = 502, rsp_headers = [],
       rsp_body = Text ''All upstream mirrors failed. Last error: 404 Not Found''\<rparr>,
      [''http://a/ubuntu/x.deb'', ''http://b/ubuntu/x.deb''])
   \<and> stream_and_cache
     (\<lambda>i url hdrs. if i = 0 then Timeout
                   else Responded \<lparr>status_code = 200, up_headers = [], body_chunks = [[1]], body_fails = False\<rparr>)
     sample_search [] (UrlList [''http://a/x'', ''http://b/x'', ''http://c/x''])
     (Path ''/srv/cache/ubuntu/ab/abcd_x.deb'') []
   = (\<lparr>rsp_status = 200, rsp_headers = [],
       rsp_body = GenerateCached (Path ''/srv/cache/ubuntu/ab/abcd_x.tmp'')
                    (Path ''/srv/cache/ubuntu/ab/abcd_x.deb'')
                    \<lparr>status_code = 200, up_headers = [], body_chunks = [[1]], body_fails = False\<rparr>\<rparr>,
      [''http://a/x'', ''http://b/x''])"
proof -
  let ?get = "\<lambda>(i::nat) (url::string) (hdrs::headers).
                Responded \<lparr>status_code = 404, up_headers = [], body_chunks = [], body_fails = False\<rparr>"
  let ?urls = "[''http://a/ubuntu/x.deb'', ''http://b/ubuntu/x.deb'']"
  have fails: "\<forall>j < length ?urls. is_failure (?get j (?urls ! j) [])"
    by (simp add: is_failure_def)
  have a: "stream_and_cache ?get sample_search [] (UrlList ?urls)
             (Path ''/srv/cache/ubuntu/ab/abcd_x.deb'') []
           = (\<lparr>rsp_status = 502, rsp_headers = [],
               rsp_body = Text ''All upstream mirrors failed. Last error: 404 Not Found''\<rparr>, ?urls)"
    using stream_and_cache_failover [of ?urls ?get "[]" sample_search "[]"
            "Path ''/srv/cache/ubuntu/ab/abcd_x.deb''" 0
            "\<lparr>status_code = 404, up_headers = [], body_chunks = [], body_fails = False\<rparr>"] fails
    by (simp add: error_string_def)
  have b: "stream_and_cache
     (\<lambda>i url hdrs. if i = 0 then Timeout
                   else Responded \<lparr>status_code = 200, up_headers = [], body_chunks = [[1]], body_fails = False\<rparr>)
     sample_search [] (UrlList [''http://a/x'', ''http://b/x'', ''http://c/x''])
     (Path ''/srv/cache/ubuntu/ab/abcd_x.deb'') []
   = (\<lparr>rsp_status = 200, rsp_headers = [],
       rsp_body = GenerateCached (Path ''/srv/cache/ubuntu/ab/abcd_x.tmp'')
                    (Path ''/srv/cache/ubuntu/ab/abcd_x.deb'')
                    \<lparr>status_code = 200, up_headers = [], body_chunks = [[1]], body_fails = False\<rparr>\<rparr>,
      [''http://a/x'', ''http://b/x''])"
    by (simp add: stream_and_cache_def Let_def path_name_def Path_def startswith_def
          with_suffix_def name_suffix_def sanitize_headers_def)
  from a b show ?thesis by simp
qed

subsection \<open>Atomic commit of a cached download\<close>

lemma confined_refl: "confined_to rt fs fs"
  by (simp add: confined_to_def)

lemma confined_resolve: "confined_to rt fs0 s \<Longrightarrow> resolve s p = resolve fs0 p"
  by (simp add: confined_to_def resolve_def)

lemma open_wb_confined:
  assumes "open_wb now fs p = Inr fs1"
  shows "confined_to (resolve fs p) fs fs1"
    and "\<exists>n. nodes fs1 (resolve fs p) = Some n \<and> \<not> is_dir n \<and> content n = []"
  using assms
  by (auto simp: open_wb_def confined_to_def split: option.splits if_splits)

lemma write_bytes_confined:
  assumes "confined_to (resolve fs0 p) fs0 s"
  shows "confined_to (resolve fs0 p) fs0 (write_bytes now s p bs)"
  using assms confined_resolve [OF assms, of p]
  by (auto simp: write_bytes_def confined_to_def split: option.splits)

lemma write_bytes_content:
  assumes "confined_to (resolve fs0 p) fs0 s"
    and "nodes s (resolve fs0 p) = Some n" and "\<not> is_dir n"
  shows "\<exists>n'. nodes (write_bytes now s p bs) (resolve fs0 p) = Some n' \<and> \<not> is_dir n' \<and>
              content n' = content n @ bs"
  using assms confined_resolve [OF assms(1), of p]
  by (auto simp: write_bytes_def)

lemma write_chunks_confined:
  assumes "confined_to (resolve fs0 p) fs0 s"
    and "\<forall>t \<in> set trace. confined_to (resolve fs0 p) fs0 t"
    and "write_chunks env now p fails i chunks s trace = (e, s', trace')"
  shows "confined_to (resolve fs0 p) fs0 s' \<and> (\<forall>t \<in> set trace'. confined_to (resolve fs0 p) fs0 t)"
  using assms
proof (induction chunks arbitrary: i s trace)
  case Nil
  then show ?case by (auto split: if_splits)
next
  case (Cons chunk rest)
  show ?case
  proof (cases "chunk = []")
    case True
    with Cons.prems(3) have
      "write_chunks env now p fails (Suc i) rest s trace = (e, s', trace')"
      by simp
    from Cons.IH [OF Cons.prems(1,2) this] show ?thesis .
  next
    case ne: False
    show ?thesis
    proof (cases "write_fails env i")
      case True
      with ne Cons.prems(3) have "s' = s" "trace' = trace" by auto
      with Cons.prems(1,2) show ?thesis by simp
    next
      case wf: False
      let ?s1 = "write_bytes now s p chunk"
      have c1: "confined_to (resolve fs0 p) fs0 ?s1"
        using Cons.prems(1) by (rule write_bytes_confined)
      have t1: "\<forall>t \<in> set (trace @ [?s1]). confined_to (resolve fs0 p) fs0 t"
        using Cons.prems(2) c1 by auto
      show ?thesis
      proof (cases "client_gone env i")
        case True
        with ne wf Cons.prems(3) have "s' = ?s1" "trace' = trace @ [?s1]"
          by (auto simp: Let_def)
        with c1 t1 show ?thesis by simp
      next
        case False
        with ne wf Cons.prems(3) have
          "write_chunks env now p fails (Suc i) rest ?s1 (trace @ [?s1]) = (e, s', trace')"
          by (simp add: Let_def)
        from Cons.IH [OF c1 t1 this] show ?thesis .
      qed
    qed
  qed
qed

lemma write_chunks_done:
  assumes "confined_to (resolve fs0 p) fs0 s"
    and "nodes s (resolve fs0 p) = Some n" and "\<not> is_dir n"
    and "write_chunks env now p fails i chunks s trace = (LoopDone, s', trace')"
  shows "\<not> fails \<and> (\<exists>n'. nodes s' (resolve fs0 p) = Some n' \<and> \<not> is_dir n' \<and>
              content n' = content n @ concat chunks)"
  using assms
proof (induction chunks arbitrary: i s trace n)
  case Nil
  then show ?case by (auto split: if_splits)
next
  case (Cons chunk rest)
  show ?case
  proof (cases "chunk = []")
    case True
    with Cons.prems(4) have run:
      "write_chunks env now p fails (Suc i) rest s trace = (LoopDone, s', trace')"
      by simp
    from Cons.IH [OF Cons.prems(1,2,3) run] True show ?thesis by simp
  next
    case ne: False
    let ?s1 = "write_bytes now s p chunk"
    from ne Cons.prems(4) have wf: "\<not> write_fails env i" and cg: "\<not> client_gone env i"
      by (auto simp: Let_def split: if_splits)
    with ne Cons.prems(4) have run:
      "write_chunks env now p fails (Suc i) rest ?s1 (trace @ [?s1]) = (LoopDone, s', trace')"
      by (simp add: Let_def)
    have c1: "confined_to (resolve fs0 p) fs0 ?s1"
      using Cons.prems(1) by (rule write_bytes_confined)
    obtain n1 where n1: "nodes ?s1 (resolve fs0 p) = Some n1" "\<not> is_dir n1"
        "content n1 = content n @ chunk"
      using write_bytes_content [OF Cons.prems(1,2,3)] by blast
    from Cons.IH [OF c1 n1(1,2) run] n1(3) show ?thesis by simp
  qed
qed

lemma on_error_confined:
  assumes "confined_to (resolve fs0 p) fs0 s"
    and "\<forall>t \<in> set trace. confined_to (resolve fs0 p) fs0 t"
    and "on_error p s trace = (res, s', trace')"
  shows "confined_to (resolve fs0 p) fs0 s'"
    and "\<forall>t \<in> set trace'. confined_to (resolve fs0 p) fs0 t"
    and "res = CaughtError \<or> res = HandlerRaised"
    and "res = CaughtError \<longrightarrow> nodes s' (resolve fs0 p) = None"
proof -
  have r: "resolve s p = resolve fs0 p"
    using assms(1) by (rule confined_resolve)
  show "confined_to (resolve fs0 p) fs0 s'"
    using assms(1,3) r
    by (cases "nodes s (resolve fs0 p)")
       (auto simp: on_error_def path_exists_def unlink_def confined_to_def split: if_splits)
  then show "\<forall>t \<in> set trace'. confined_to (resolve fs0 p) fs0 t"
    using assms(2,3) r
    by (cases "nodes s (resolve fs0 p)")
       (auto simp: on_error_def path_exists_def unlink_def split: if_splits)
  show "res = CaughtError \<or> res = HandlerRaised"
    using assms(3) r
    by (cases "nodes s (resolve fs0 p)")
       (auto simp: on_error_def path_exists_def unlink_def split: if_splits)
  show "res = CaughtError \<longrightarrow> nodes s' (resolve fs0 p) = None"
    using assms(3) r
    by (cases "nodes s (resolve fs0 p)")
       (auto simp: on_error_def path_exists_def unlink_def split: if_splits)
qed

lemma rename_commit:
  assumes "confined_to (resolve fs0 p) fs0 s"
    and "resolve fs0 p \<noteq> resolve fs0 d"
    and "nodes s (resolve fs0 p) = Some n"
    and "rename s p d = Inr s3"
  shows "nodes s3 (resolve fs0 p) = None \<and> nodes s3 (resolve fs0 d) = Some n \<and>
         (\<forall>q. q \<noteq> resolve fs0 p \<and> q \<noteq> resolve fs0 d \<longrightarrow> nodes s3 q = nodes fs0 q)"
proof -
  have rp: "resolve s p = resolve fs0 p" and rd: "resolve s d = resolve fs0 d"
    using assms(1) by (rule confined_resolve)+
  have s3: "s3 = s\<lparr>nodes := (nodes s)(resolve fs0 p := None, resolve fs0 d \<mapsto> n)\<rparr>"
    using assms(2,3,4) rp rd
    by (cases "nodes s (resolve fs0 d)") (simp_all add: rename_def split: if_splits)
  show ?thesis
    using assms(1,2) by (simp add: s3 confined_to_def)
qed


lemma generate_cached_confined:
  assumes ne: "resolve fs p \<noteq> resolve fs d"
    and run: "generate_cached env now p d r fs = (res, fs', trace)"
  shows "(\<forall>s \<in> set trace. confined_to (resolve fs p) fs s \<or> (res = Committed \<and> s = fs'))
       \<and> (res = Committed \<longrightarrow>
            \<not> body_fails r \<and> nodes fs' (resolve fs p) = None \<and>
            (\<exists>n. nodes fs' (resolve fs d) = Some n \<and> \<not> is_dir n \<and>
                 content n = concat (body_chunks r)) \<and>
            (\<forall>q. q \<noteq> resolve fs p \<and> q \<noteq> resolve fs d \<longrightarrow> nodes fs' q = nodes fs q))
       \<and> (res = CaughtError \<longrightarrow> nodes fs' (resolve fs p) = None)
       \<and> (res \<noteq> Committed \<longrightarrow> confined_to (resolve fs p) fs fs')"
proof (cases "if open_fails env then Inl OSError else open_wb now fs p")
  case (Inl e)
  with run have oe: "on_error p fs [] = (res, fs', trace)"
    by (simp add: generate_cached_def)
  have t0: "\<forall>t \<in> set []. confined_to (resolve fs p) fs t" by simp
  note E = on_error_confined [OF confined_refl t0 oe]
  from E show ?thesis by auto
next
  case (Inr fs1)
  then have op: "open_wb now fs p = Inr fs1"
    by (simp split: if_splits)
  have c1: "confined_to (resolve fs p) fs fs1"
    using op by (rule open_wb_confined(1))
  obtain n1 where n1: "nodes fs1 (resolve fs p) = Some n1" "\<not> is_dir n1" "content n1 = []"
    using open_wb_confined(2) [OF op] by blast
  have t1: "\<forall>t \<in> set [fs1]. confined_to (resolve fs p) fs t"
    using c1 by simp
  obtain e fs2 tr2 where wc:
    "write_chunks env now p (body_fails r) 0 (body_chunks r) fs1 [fs1] = (e, fs2, tr2)"
    by (metis prod_cases3)
  have c2: "confined_to (resolve fs p) fs fs2"
    and t2: "\<forall>t \<in> set tr2. confined_to (resolve fs p) fs t"
    using write_chunks_confined [OF c1 t1 wc] by simp_all
  show ?thesis
  proof (cases e)
    case LoopRaised
    with run Inr wc have oe: "on_error p fs2 tr2 = (res, fs', trace)"
      by (simp add: generate_cached_def)
    note E = on_error_confined [OF c2 t2 oe]
    from E show ?thesis by auto
  next
    case LoopClosed
    with run Inr wc have "res = ClientClosed" "fs' = fs2" "trace = tr2"
      by (auto simp: generate_cached_def)
    with c2 t2 show ?thesis by simp
  next
    case LoopDone
    with wc have wd: "write_chunks env now p (body_fails r) 0 (body_chunks r) fs1 [fs1]
                       = (LoopDone, fs2, tr2)"
      by simp
    from write_chunks_done [OF c1 n1(1,2) wd] n1(3)
    obtain n2 where nf: "\<not> body_fails r"
      and n2: "nodes fs2 (resolve fs p) = Some n2" "\<not> is_dir n2"
        "content n2 = concat (body_chunks r)"
      by auto
    show ?thesis
    proof (cases "if rename_fails env then Inl OSError else rename fs2 p d")
      case (Inl x)
      with run Inr wc LoopDone have oe: "on_error p fs2 tr2 = (res, fs', trace)"
        by (simp add: generate_cached_def)
      note E = on_error_confined [OF c2 t2 oe]
      from E show ?thesis by auto
    next
      case rn: (Inr fs3)
      with run Inr wc LoopDone have res: "res = Committed" "fs' = fs3" "trace = tr2 @ [fs3]"
        by (auto simp: generate_cached_def)
      from rn have rn': "rename fs2 p d = Inr fs3"
        by (simp split: if_splits)
      from rename_commit [OF c2 ne n2(1) rn'] res t2 nf n2 show ?thesis
        by auto
    qed
  qed
qed


lemma write_chunks_no_failure:
  assumes "\<And>i. \<not> write_fails env i" and "\<And>i. \<not> client_gone env i"
  shows "fst (write_chunks env now p False i chunks s trace) = LoopDone"
  using assms
  by (induction chunks arbitrary: i s trace) (simp_all add: Let_def)

lemma generate_cached_commits:
  assumes ne: "resolve fs p \<noteq> resolve fs d"
    and run: "generate_cached env now p d r fs = (res, fs', trace)"
    and env: "\<not> open_fails env" "\<And>i. \<not> write_fails env i" "\<And>i. \<not> client_gone env i"
      "\<not> rename_fails env"
    and body: "\<not> body_fails r"
    and tfile: "\<And>n. nodes fs (resolve fs p) = Some n \<Longrightarrow> \<not> is_dir n"
    and dfile: "\<And>n. nodes fs (resolve fs d) = Some n \<Longrightarrow> \<not> is_dir n"
  shows "res = Committed"
proof -
  obtain fs1 where op: "open_wb now fs p = Inr fs1"
    using tfile by (cases "nodes fs (resolve fs p)") (auto simp: open_wb_def)
  have c1: "confined_to (resolve fs p) fs fs1"
    using op by (rule open_wb_confined(1))
  obtain n1 where n1: "nodes fs1 (resolve fs p) = Some n1" "\<not> is_dir n1"
    using open_wb_confined(2) [OF op] by blast
  have t1: "\<forall>t \<in> set [fs1]. confined_to (resolve fs p) fs t"
    using c1 by simp
  obtain e fs2 tr2 where wc:
    "write_chunks env now p (body_fails r) 0 (body_chunks r) fs1 [fs1] = (e, fs2, tr2)"
    by (metis prod_cases3)
  have e: "e = LoopDone"
    using write_chunks_no_failure [OF env(2,3), of now p 0 "body_chunks r" fs1 "[fs1]"] wc body
    by simp
  have c2: "confined_to (resolve fs p) fs fs2"
    using write_chunks_confined [OF c1 t1 wc] by simp
  obtain n2 where n2: "nodes fs2 (resolve fs p) = Some n2"
    using write_chunks_done [OF c1 n1 wc [unfolded e]] by blast
  have r2: "resolve fs2 p = resolve fs p" "resolve fs2 d = resolve fs d"
    using c2 by (rule confined_resolve)+
  have d2: "nodes fs2 (resolve fs d) = nodes fs (resolve fs d)"
    using c2 ne by (simp add: confined_to_def)
  obtain fs3 where rn: "rename fs2 p d = Inr fs3"
    using n2 d2 dfile ne
    by (cases "nodes fs (resolve fs d)") (auto simp: rename_def r2)
  from run op wc e rn env(1,4) show ?thesis
    by (auto simp: generate_cached_def)
qed

lemma fetch_urls_cached_body:
  "rsp_body (fst (fetch_urls get sc cp hdrs i last_error url_list)) = GenerateCached t c r \<Longrightarrow>
   t = with_suffix cp ''.tmp'' \<and> c = cp \<and> sc \<and> status_code r = 200
   \<and> rsp_status (fst (fetch_urls get sc cp hdrs i last_error url_list)) = 200"
proof (induction url_list arbitrary: i last_error)
  case Nil
  then show ?case by simp
next
  case (Cons url rest)
  have step: ?case
    if "fst (fetch_urls get sc cp hdrs i last_error (url # rest))
          = fst (fetch_urls get sc cp hdrs (Suc i) e rest)" for e
  proof -
    from Cons.prems
    have "rsp_body (fst (fetch_urls get sc cp hdrs (Suc i) e rest)) = GenerateCached t c r"
      unfolding that .
    from Cons.IH [OF this] show ?thesis
      unfolding that .
  qed
  show ?case
  proof (cases "get i url hdrs")
    case Timeout
    then show ?thesis by (intro step [of "Some ''Timeout''"]) (simp add: split_beta)
  next
    case (RequestException e)
    then show ?thesis by (intro step [of "Some e"]) (simp add: split_beta)
  next
    case (Responded r0)
    show ?thesis
    proof (cases "status_code r0 = 404")
      case True
      with Responded show ?thesis
        by (intro step [of "Some ''404 Not Found''"]) (simp add: split_beta)
    next
      case n404: False
      show ?thesis
      proof (cases "status_code r0 = 200 \<or> status_code r0 = 206 \<or> status_code r0 = 304")
        case True
        with Responded n404 Cons.prems show ?thesis
          by (auto simp: Let_def split: if_splits)
      next
        case False
        with Responded n404 show ?thesis
          by (intro step [of "Some (''HTTP '' @ str_nat (status_code r0))"])
             (simp add: split_beta del: str_nat.simps)
      qed
    qed
  qed
qed

text \<open>
  C5, as the code has it: when the temporary path \<open>with_suffix(cache_path, '.tmp')\<close> is
  not the cache path itself, every state of the file system during a run of
  \<open>generate_cached\<close> differs from the initial one at the temporary path only, except the
  state after the rename. The rename happens only after the stream has ended without an
  error and puts the complete body at the cache path, and it does happen when nothing
  fails. When an exception is caught the
  temporary file is gone, and after every run that did not commit the cache path holds
  what it held before the fetch (nothing if there was no file).
\<close>

theorem generate_cached_atomic_commit:
  "resolve fs (with_suffix cache_path ''.tmp'') \<noteq> resolve fs cache_path \<Longrightarrow>
   generate_cached env now (with_suffix cache_path ''.tmp'') cache_path r fs = (res, fs', trace) \<Longrightarrow>
   (\<forall>s \<in> set trace. confined_to (resolve fs (with_suffix cache_path ''.tmp'')) fs s
                     \<or> (res = Committed \<and> s = fs'))
   \<and> (\<forall>s \<in> set trace. nodes s (resolve fs cache_path) = nodes fs (resolve fs cache_path)
                     \<or> (res = Committed \<and> s = fs'))
   \<and> (res = Committed \<longrightarrow>
        \<not> body_fails r \<and> nodes fs' (resolve fs (with_suffix cache_path ''.tmp'')) = None \<and>
        (\<exists>n. nodes fs' (resolve fs cache_path) = Some n \<and> \<not> is_dir n \<and>
             content n = concat (body_chunks r)))
   \<and> (res = CaughtError \<longrightarrow> nodes fs' (resolve fs (with_suffix cache_path ''.tmp'')) = None)
   \<and> (res \<noteq> Committed \<longrightarrow> nodes fs' (resolve fs cache_path) = nodes fs (resolve fs cache_path))
   \<and> (\<not> open_fails env \<and> (\<forall>i. \<not> write_fails env i \<and> \<not> client_gone env i) \<and>
      \<not> body_fails r \<and> \<not> rename_fails env \<and>
      (\<forall>n. nodes fs (resolve fs (with_suffix cache_path ''.tmp'')) = Some n \<longrightarrow> \<not> is_dir n) \<and>
      (\<forall>n. nodes fs (resolve fs cache_path) = Some n \<longrightarrow> \<not> is_dir n) \<longrightarrow>
      res = Committed)"
proof -
  assume ne: "resolve fs (with_suffix cache_path ''.tmp'') \<noteq> resolve fs cache_path"
    and run: "generate_cached env now (with_suffix cache_path ''.tmp'') cache_path r fs = (res, fs', trace)"
  note G = generate_cached_confined [OF ne run]
  have keep: "nodes s (resolve fs cache_path) = nodes fs (resolve fs cache_path)"
    if "confined_to (resolve fs (with_suffix cache_path ''.tmp'')) fs s" for s
    using that ne by (simp add: confined_to_def)
  have commits: "res = Committed"
    if "\<not> open_fails env \<and> (\<forall>i. \<not> write_fails env i \<and> \<not> client_gone env i) \<and>
        \<not> body_fails r \<and> \<not> rename_fails env \<and>
        (\<forall>n. nodes fs (resolve fs (with_suffix cache_path ''.tmp'')) = Some n \<longrightarrow> \<not> is_dir n) \<and>
        (\<forall>n. nodes fs (resolve fs cache_path) = Some n \<longrightarrow> \<not> is_dir n)"
    using that by (intro generate_cached_commits [OF ne run]) blast+
  from G keep have first: "(\<forall>s \<in> set trace. confined_to (resolve fs (with_suffix cache_path ''.tmp'')) fs s
                     \<or> (res = Committed \<and> s = fs'))
   \<and> (\<forall>s \<in> set trace. nodes s (resolve fs cache_path) = nodes fs (resolve fs cache_path)
                     \<or> (res = Committed \<and> s = fs'))
   \<and> (res = Committed \<longrightarrow>
        \<not> body_fails r \<and> nodes fs' (resolve fs (with_suffix cache_path ''.tmp'')) = None \<and>
        (\<exists>n. nodes fs' (resolve fs cache_path) = Some n \<and> \<not> is_dir n \<and>
             content n = concat (body_chunks r)))
   \<and> (res = CaughtError \<longrightarrow> nodes fs' (resolve fs (with_suffix cache_path ''.tmp'')) = None)
   \<and> (res \<noteq> Committed \<longrightarrow> nodes fs' (resolve fs cache_path) = nodes fs (resolve fs cache_path))"
    by blast
  from commits have last:
    "\<not> open_fails env \<and> (\<forall>i. \<not> write_fails env i \<and> \<not> client_gone env i) \<and>
      \<not> body_fails r \<and> \<not> rename_fails env \<and>
      (\<forall>n. nodes fs (resolve fs (with_suffix cache_path ''.tmp'')) = Some n \<longrightarrow> \<not> is_dir n) \<and>
      (\<forall>n. nodes fs (resolve fs cache_path) = Some n \<longrightarrow> \<not> is_dir n) \<longrightarrow>
      res = Committed"
    by (rule impI)
  from first last show ?thesis
    by (elim conjE) (intro conjI; assumption)
qed

theorem generate_cached_atomic_commit_witness:
  "(\<exists>fs' trace.
      generate_cached \<lparr>open_fails = False, write_fails = (\<lambda>i. False), client_gone = (\<lambda>i. False), rename_fails = False\<rparr> 5 (with_suffix (Path ''/c/ab_x.deb'') ''.tmp'') (Path ''/c/ab_x.deb'') \<lparr>status_code = 200, up_headers = [], body_chunks = [[1, 2], [3]], body_fails = False\<rparr> \<lparr>cwd = [], nodes = Map.empty\<rparr> = (Committed, fs', trace)
      \<and> nodes fs' [''c'', ''ab_x.tmp''] = None
      \<and> (\<exists>n. nodes fs' [''c'', ''ab_x.deb''] = Some n \<and> content n = [1, 2, 3]))
   \<and> (\<exists>fs' trace.
      generate_cached \<lparr>open_fails = False, write_fails = (\<lambda>i. False), client_gone = (\<lambda>i. False), rename_fails = False\<rparr> 5 (with_suffix (Path ''/c/ab_x.deb'') ''.tmp'') (Path ''/c/ab_x.deb'') \<lparr>status_code = 200, up_headers = [], body_chunks = [[1, 2]], body_fails = True\<rparr> \<lparr>cwd = [], nodes = Map.empty\<rparr> = (CaughtError, fs', trace)
      \<and> nodes fs' [''c'', ''ab_x.tmp''] = None
      \<and> nodes fs' [''c'', ''ab_x.deb''] = None)"
proof -
  have rt: "resolve \<lparr>cwd = [], nodes = Map.empty\<rparr> (with_suffix (Path ''/c/ab_x.deb'') ''.tmp'') = [''c'', ''ab_x.tmp'']"
    by (simp add: generate_cached_def open_wb_def write_bytes_def rename_def on_error_def unlink_def path_exists_def resolve_def normalize_def with_suffix_def name_suffix_def path_name_def Path_def startswith_def Let_def)
  have rf: "resolve \<lparr>cwd = [], nodes = Map.empty\<rparr> (Path ''/c/ab_x.deb'') = [''c'', ''ab_x.deb'']"
    by (simp add: generate_cached_def open_wb_def write_bytes_def rename_def on_error_def unlink_def path_exists_def resolve_def normalize_def with_suffix_def name_suffix_def path_name_def Path_def startswith_def Let_def)
  have ne: "resolve \<lparr>cwd = [], nodes = Map.empty\<rparr> (with_suffix (Path ''/c/ab_x.deb'') ''.tmp'') \<noteq> resolve \<lparr>cwd = [], nodes = Map.empty\<rparr> (Path ''/c/ab_x.deb'')"
    by (simp add: rt rf)
  obtain res1 fs1 tr1 where run1: "generate_cached \<lparr>open_fails = False, write_fails = (\<lambda>i. False), client_gone = (\<lambda>i. False), rename_fails = False\<rparr> 5 (with_suffix (Path ''/c/ab_x.deb'') ''.tmp'') (Path ''/c/ab_x.deb'') \<lparr>status_code = 200, up_headers = [], body_chunks = [[1, 2], [3]], body_fails = False\<rparr> \<lparr>cwd = [], nodes = Map.empty\<rparr> = (res1, fs1, tr1)"
    by (metis prod_cases3)
  have ok: "res1 = Committed"
    using run1 by (auto simp: generate_cached_def open_wb_def write_bytes_def rename_def on_error_def unlink_def path_exists_def resolve_def normalize_def with_suffix_def name_suffix_def path_name_def Path_def startswith_def Let_def)
  obtain res2 fs2 tr2 where run2: "generate_cached \<lparr>open_fails = False, write_fails = (\<lambda>i. False), client_gone = (\<lambda>i. False), rename_fails = False\<rparr> 5 (with_suffix (Path ''/c/ab_x.deb'') ''.tmp'') (Path ''/c/ab_x.deb'') \<lparr>status_code = 200, up_headers = [], body_chunks = [[1, 2]], body_fails = True\<rparr> \<lparr>cwd = [], nodes = Map.empty\<rparr> = (res2, fs2, tr2)"
    by (metis prod_cases3)
  have bad: "res2 = CaughtError"
    using run2 by (auto simp: generate_cached_def open_wb_def write_bytes_def rename_def on_error_def unlink_def path_exists_def resolve_def normalize_def with_suffix_def name_suffix_def path_name_def Path_def startswith_def Let_def)
  from generate_cached_atomic_commit [OF ne run1] ok run1
  have a: "\<exists>fs' trace.
      generate_cached \<lparr>open_fails = False, write_fails = (\<lambda>i. False), client_gone = (\<lambda>i. False), rename_fails = False\<rparr> 5 (with_suffix (Path ''/c/ab_x.deb'') ''.tmp'') (Path ''/c/ab_x.deb'') \<lparr>status_code = 200, up_headers = [], body_chunks = [[1, 2], [3]], body_fails = False\<rparr> \<lparr>cwd = [], nodes = Map.empty\<rparr> = (Committed, fs', trace)
      \<and> nodes fs' [''c'', ''ab_x.tmp''] = None
      \<and> (\<exists>n. nodes fs' [''c'', ''ab_x.deb''] = Some n \<and> content n = [1, 2, 3])"
    by (auto simp: rt rf)
  from generate_cached_atomic_commit [OF ne run2] bad run2
  have b: "\<exists>fs' trace.
      generate_cached \<lparr>open_fails = False, write_fails = (\<lambda>i. False), client_gone = (\<lambda>i. False), rename_fails = False\<rparr> 5 (with_suffix (Path ''/c/ab_x.deb'') ''.tmp'') (Path ''/c/ab_x.deb'') \<lparr>status_code = 200, up_headers = [], body_chunks = [[1, 2]], body_fails = True\<rparr> \<lparr>cwd = [], nodes = Map.empty\<rparr> = (CaughtError, fs', trace)
      \<and> nodes fs' [''c'', ''ab_x.tmp''] = None
      \<and> nodes fs' [''c'', ''ab_x.deb''] = None"
    by (auto simp: rt rf)
  from a b show ?thesis by blast
qed

text \<open>
  C5 as stated fails where an expired entry is being refreshed: the upstream stream
  breaks after the first chunk, the generator catches the error, and the old file is
  still at the cache path.
\<close>

theorem generate_cached_stale_entry_remains:
  "fst (generate_cached \<lparr>open_fails = False, write_fails = (\<lambda>i. False), client_gone = (\<lambda>i. False), rename_fails = False\<rparr> 5 (with_suffix (Path ''/c/ab_x.deb'') ''.tmp'') (Path ''/c/ab_x.deb'') \<lparr>status_code = 200, up_headers = [], body_chunks = [[1, 2]], body_fails = True\<rparr> \<lparr>cwd = [], nodes = [[''c'', ''ab_x.deb''] \<mapsto> \<lparr>is_dir = False, content = [9], st_atime = 0, st_mtime = 0\<rparr>]\<rparr>) = CaughtError
   \<and> nodes (fst (snd (generate_cached \<lparr>open_fails = False, write_fails = (\<lambda>i. False), client_gone = (\<lambda>i. False), rename_fails = False\<rparr> 5 (with_suffix (Path ''/c/ab_x.deb'') ''.tmp'') (Path ''/c/ab_x.deb'') \<lparr>status_code = 200, up_headers = [], body_chunks = [[1, 2]], body_fails = True\<rparr> \<lparr>cwd = [], nodes = [[''c'', ''ab_x.deb''] \<mapsto> \<lparr>is_dir = False, content = [9], st_atime = 0, st_mtime = 0\<rparr>]\<rparr>))) (resolve \<lparr>cwd = [], nodes = [[''c'', ''ab_x.deb''] \<mapsto> \<lparr>is_dir = False, content = [9], st_atime = 0, st_mtime = 0\<rparr>]\<rparr> (Path ''/c/ab_x.deb''))
       = Some \<lparr>is_dir = False, content = [9], st_atime = 0, st_mtime = 0\<rparr>"
  by (simp add: generate_cached_def open_wb_def write_bytes_def rename_def on_error_def unlink_def path_exists_def resolve_def normalize_def with_suffix_def name_suffix_def path_name_def Path_def startswith_def Let_def)

text \<open>
  A cache file whose name ends in \<open>.tmp\<close> is its own temporary path: \<open>with_suffix\<close> replaces
  the suffix, and the second state of the run shows the first chunk at the cache path.
\<close>

lemma generate_cached_tmp_name:
  "with_suffix (Path ''/c/ab_x.tmp'') ''.tmp'' = Path ''/c/ab_x.tmp''
   \<and> snd (snd (generate_cached \<lparr>open_fails = False, write_fails = (\<lambda>i. False), client_gone = (\<lambda>i. False), rename_fails = False\<rparr> 5 (with_suffix (Path ''/c/ab_x.tmp'') ''.tmp'')
                  (Path ''/c/ab_x.tmp'') \<lparr>status_code = 200, up_headers = [], body_chunks = [[1, 2], [3]], body_fails = False\<rparr> \<lparr>cwd = [], nodes = Map.empty\<rparr>)) ! 1
       = \<lparr>cwd = [], nodes = [[''c'', ''ab_x.tmp''] \<mapsto>
            \<lparr>is_dir = False, content = [1, 2], st_atime = 5, st_mtime = 5\<rparr>]\<rparr>"
  by (simp add: generate_cached_def open_wb_def write_bytes_def rename_def on_error_def unlink_def path_exists_def resolve_def normalize_def with_suffix_def name_suffix_def path_name_def Path_def startswith_def Let_def)

subsection \<open>Cache path derivation\<close>

lemma split_on_no_sep: "sep \<notin> set s \<Longrightarrow> split_on sep s = [s]"
  by (induction s) auto

lemma split_on_sep_length: "sep \<in> set s \<Longrightarrow> length (split_on sep s) \<ge> 2"
  using split_on_nonempty [of sep]
  by (induction s) (auto split: list.splits simp: Suc_le_eq)

lemma last_split_on: "last (split_on sep s) = rev (takeWhile (\<lambda>c. c \<noteq> sep) (rev s))"
proof (induction s)
  case Nil
  show ?case by simp
next
  case (Cons c cs)
  show ?case
  proof (cases "c = sep")
    case True
    then show ?thesis
      using Cons split_on_nonempty [of sep cs]
      by (auto simp: takeWhile_append)
  next
    case False
    show ?thesis
    proof (cases "sep \<in> set cs")
      case True
      obtain p ps where sp: "split_on sep cs = p # ps"
        using split_on_nonempty [of sep cs] by (cases "split_on sep cs") auto
      with split_on_sep_length [OF True] have "ps \<noteq> []" by auto
      with sp False True Cons show ?thesis
        by (auto simp: takeWhile_append)
    next
      case nin: False
      with False show ?thesis
        by (simp add: split_on_no_sep takeWhile_append)
    qed
  qed
qed

lemma basename_last_segment: "basename p = last (split_on CHR ''/'' p)"
  by (simp add: basename_def last_split_on)

lemma basename_no_slash: "CHR ''/'' \<notin> set (basename p)"
proof
  assume "CHR ''/'' \<in> set (basename p)"
  then have "CHR ''/'' \<in> set (takeWhile (\<lambda>c. c \<noteq> CHR ''/'') (rev p))"
    by (simp add: basename_def)
  then show False
    by (auto dest: set_takeWhileD)
qed

lemma Path_plain: "plain_segment s \<Longrightarrow> Path s = \<lparr>anchored = False, parts = [s]\<rparr>"
  by (cases s) (auto simp: plain_segment_def Path_def startswith_def split_on_no_sep)

lemma path_div_plain:
  "plain_segment s \<Longrightarrow> path_div p s = \<lparr>anchored = anchored p, parts = parts p @ [s]\<rparr>"
  by (simp add: path_div_def Path_plain)

lemma str_join_snoc: "xs \<noteq> [] \<Longrightarrow> str_join sep (xs @ [y]) = str_join sep xs @ sep @ y"
  by (induction sep xs rule: str_join.induct) auto


lemma str_join_append:
  "xs \<noteq> [] \<Longrightarrow> ys \<noteq> [] \<Longrightarrow> str_join sep (xs @ ys) = str_join sep xs @ sep @ str_join sep ys"
proof (induction sep xs rule: str_join.induct)
  case (1 sep)
  then show ?case by simp
next
  case (2 sep x)
  then show ?case by (cases ys) simp_all
next
  case (3 sep x y zs)
  then show ?case by simp
qed

lemma hex_plain:
  assumes "length h = 32" and "set h \<subseteq> set ''0123456789abcdef''"
  shows "plain_segment (take 2 h)" and "CHR ''/'' \<notin> set seg \<Longrightarrow> plain_segment (h @ ''_'' @ seg)"
proof -
  have ns: "CHR ''/'' \<notin> set h" and nd: "CHR ''.'' \<notin> set h"
    using assms(2) by auto
  have ne: "take 2 h \<noteq> []" using assms(1) by auto
  have "CHR ''.'' \<notin> set (take 2 h)" using nd by (auto dest: in_set_takeD)
  then have "take 2 h \<noteq> ''.''" by auto
  moreover have "CHR ''/'' \<notin> set (take 2 h)" using ns by (auto dest: in_set_takeD)
  ultimately show "plain_segment (take 2 h)"
    using ne by (simp add: plain_segment_def)
  assume "CHR ''/'' \<notin> set seg"
  moreover have "length (h @ ''_'' @ seg) \<noteq> length ''.''" using assms(1) by simp
  then have "h @ ''_'' @ seg \<noteq> ''.''" by metis
  ultimately show "plain_segment (h @ ''_'' @ seg)"
    using ns by (simp add: plain_segment_def)
qed

text \<open>
  C9: with the storage root configured, \<open>get_cache_path\<close> returns (whenever the
  directory can be created) the path \<open>STORAGE / distro / h[0:2] / (h + '_' + name)\<close>, where
  \<open>h\<close> is the MD5 hex digest of the package path and \<open>name\<close> is its last slash-delimited
  segment, or \<open>index\<close> when that segment is empty. The path depends on nothing but the
  arguments and the configured root: two derivations, at any times and on any file
  systems, give the same path and the same bytes. For a distro that is one plain path
  segment the bytes are \<open>STORAGE/distro/h[0:2]/h_name\<close>.
\<close>

theorem get_cache_path_formula:
  "storage_path_resolved cfg = Some storage \<Longrightarrow>
   (mkdir_parents now fs (path_div (path_div (Path storage) distro) (take 2 (md5 path))) = Inr fs' \<longrightarrow>
      get_cache_path cfg md5 now fs distro path =
        Inr (path_div (path_div (path_div (Path storage) distro) (take 2 (md5 path)))
               (md5 path @ ''_'' @ (if last (split_on CHR ''/'' path) = [] then ''index''
                                     else last (split_on CHR ''/'' path))), fs'))
   \<and> (get_cache_path cfg md5 now1 fs1 distro path = Inr (p1, g1) \<and>
      get_cache_path cfg md5 now2 fs2 distro path = Inr (p2, g2) \<longrightarrow>
      p1 = p2 \<and> path_str p1 = path_str p2)
   \<and> (anchored (Path storage) \<and> parts (Path storage) \<noteq> [] \<and> plain_segment distro \<and>
      length (md5 path) = 32 \<and> set (md5 path) \<subseteq> set ''0123456789abcdef'' \<longrightarrow>
      path_str (path_div (path_div (path_div (Path storage) distro) (take 2 (md5 path)))
                  (md5 path @ ''_'' @ (if last (split_on CHR ''/'' path) = [] then ''index''
                                        else last (split_on CHR ''/'' path))))
        = path_str (Path storage) @ ''/'' @ distro @ ''/'' @ take 2 (md5 path) @ ''/'' @
          md5 path @ ''_'' @ (if last (split_on CHR ''/'' path) = [] then ''index''
                               else last (split_on CHR ''/'' path)))"
proof -
  assume st: "storage_path_resolved cfg = Some storage"
  let ?seg = "if last (split_on CHR ''/'' path) = [] then ''index'' else last (split_on CHR ''/'' path)"
  let ?dir = "path_div (path_div (Path storage) distro) (take 2 (md5 path))"
  let ?F = "path_div ?dir (md5 path @ ''_'' @ ?seg)"
  have seg: "(if basename path \<noteq> [] then basename path else ''index'') = ?seg"
    by (simp add: basename_last_segment)
  have gcp: "get_cache_path cfg md5 t f distro path =
               (case mkdir_parents t f ?dir of Inl e \<Rightarrow> Inl e | Inr f' \<Rightarrow> Inr (?F, f'))" for t f
    unfolding get_cache_path_def st Let_def seg by simp
  have a: "mkdir_parents now fs ?dir = Inr fs' \<longrightarrow> get_cache_path cfg md5 now fs distro path = Inr (?F, fs')"
    by (simp add: gcp)
  have b: "get_cache_path cfg md5 now1 fs1 distro path = Inr (p1, g1) \<and>
           get_cache_path cfg md5 now2 fs2 distro path = Inr (p2, g2) \<longrightarrow>
           p1 = p2 \<and> path_str p1 = path_str p2"
    by (auto simp: gcp split: sum.splits)
  have c: "path_str ?F = path_str (Path storage) @ ''/'' @ distro @ ''/'' @ take 2 (md5 path) @ ''/'' @
             md5 path @ ''_'' @ ?seg"
    if h: "anchored (Path storage)" "parts (Path storage) \<noteq> []" "plain_segment distro"
          "length (md5 path) = 32" "set (md5 path) \<subseteq> set ''0123456789abcdef''"
  proof -
    have nosl: "CHR ''/'' \<notin> set ?seg"
      using basename_no_slash [of path] by (simp add: basename_last_segment)
    note P = hex_plain [OF h(4,5)]
    have F: "?F = \<lparr>anchored = True,
                   parts = ((parts (Path storage) @ [distro]) @ [take 2 (md5 path)]) @ [md5 path @ ''_'' @ ?seg]\<rparr>"
      using h(1,3) P(1) P(2) [OF nosl]
      by (simp add: path_div_plain)
    show ?thesis
      unfolding F using h(1,2)
      by (simp add: path_str_def str_join_append)
  qed
  from a b c show ?thesis by blast
qed

theorem get_cache_path_formula_witness:
  "(\<exists>p fs'. get_cache_path \<lparr>storage_path_resolved = Some ''/srv/cache'', cache_retention_enabled = None, cache_days = None, passthrough_mode = None\<rparr> sample_md5 0 \<lparr>cwd = [], nodes = Map.empty\<rparr> ''ubuntu'' ''pool/main/x.deb'' = Inr (p, fs')
       \<and> path_str p = ''/srv/cache/ubuntu/4d/4d5868c5c391a5e39a7ec67483828d1a_x.deb'')
   \<and> (\<exists>p fs'. get_cache_path \<lparr>storage_path_resolved = Some ''/srv/cache'', cache_retention_enabled = None, cache_days = None, passthrough_mode = None\<rparr> sample_md5 0 \<lparr>cwd = [], nodes = Map.empty\<rparr> ''ubuntu'' ''dists/jammy/'' = Inr (p, fs')
       \<and> path_str p = ''/srv/cache/ubuntu/76/76afc71c3ed36a44a118fe6b423573ed_index'')"
proof -
  let ?cfg = "\<lparr>storage_path_resolved = Some ''/srv/cache'', cache_retention_enabled = None, cache_days = None, passthrough_mode = None\<rparr>"
  let ?fs = "\<lparr>cwd = [], nodes = Map.empty\<rparr>"
  have st: "storage_path_resolved ?cfg = Some ''/srv/cache''" by simp
  have P: "Path ''/srv/cache'' = \<lparr>anchored = True, parts = [''srv'', ''cache'']\<rparr>"
    by (simp add: Path_def startswith_def)
  have pl: "plain_segment ''ubuntu''" by (simp add: plain_segment_def)
  have mk: "\<exists>fs'. mkdir_parents 0 ?fs (path_div (path_div (Path ''/srv/cache'') ''ubuntu'')
                     (take 2 (sample_md5 q))) = Inr fs'" for q
    by (simp add: mkdir_parents_def Let_def list_ex_iff)
  have hx: "length (sample_md5 q) = 32 \<and> set (sample_md5 q) \<subseteq> set ''0123456789abcdef''" for q
    by (simp add: sample_md5_def)
  have l1: "last (split_on CHR ''/'' ''pool/main/x.deb'') = ''x.deb''" by simp
  have l2: "last (split_on CHR ''/'' ''dists/jammy/'') = []" by simp
  have m1: "sample_md5 ''pool/main/x.deb'' = ''4d5868c5c391a5e39a7ec67483828d1a''"
    by (simp add: sample_md5_def)
  have m2: "sample_md5 ''dists/jammy/'' = ''76afc71c3ed36a44a118fe6b423573ed''"
    by (simp add: sample_md5_def)
  obtain f1 where f1: "mkdir_parents 0 ?fs (path_div (path_div (Path ''/srv/cache'') ''ubuntu'')
                         (take 2 (sample_md5 ''pool/main/x.deb''))) = Inr f1"
    using mk by blast
  obtain f2 where f2: "mkdir_parents 0 ?fs (path_div (path_div (Path ''/srv/cache'') ''ubuntu'')
                         (take 2 (sample_md5 ''dists/jammy/''))) = Inr f2"
    using mk by blast
  note t1 = get_cache_path_formula [OF st, of 0 ?fs "''ubuntu''" sample_md5 "''pool/main/x.deb''" f1]
  note t2 = get_cache_path_formula [OF st, of 0 ?fs "''ubuntu''" sample_md5 "''dists/jammy/''" f2]
  have a: "\<exists>p fs'. get_cache_path ?cfg sample_md5 0 ?fs ''ubuntu'' ''pool/main/x.deb'' = Inr (p, fs')
       \<and> path_str p = ''/srv/cache/ubuntu/4d/4d5868c5c391a5e39a7ec67483828d1a_x.deb''"
  proof -
    from t1 f1 have g: "get_cache_path ?cfg sample_md5 0 ?fs ''ubuntu'' ''pool/main/x.deb'' =
        Inr (path_div (path_div (path_div (Path ''/srv/cache'') ''ubuntu'') (take 2 (sample_md5 ''pool/main/x.deb'')))
               (sample_md5 ''pool/main/x.deb'' @ ''_'' @ ''x.deb''), f1)"
      by (simp add: l1)
    from t1 pl hx [of "''pool/main/x.deb''"] have
      "path_str (path_div (path_div (path_div (Path ''/srv/cache'') ''ubuntu'') (take 2 (sample_md5 ''pool/main/x.deb'')))
               (sample_md5 ''pool/main/x.deb'' @ ''_'' @ ''x.deb''))
        = path_str (Path ''/srv/cache'') @ ''/'' @ ''ubuntu'' @ ''/'' @ take 2 (sample_md5 ''pool/main/x.deb'') @ ''/'' @
          sample_md5 ''pool/main/x.deb'' @ ''_'' @ ''x.deb''"
      by (simp add: l1 P)
    then have "path_str (path_div (path_div (path_div (Path ''/srv/cache'') ''ubuntu'') (take 2 (sample_md5 ''pool/main/x.deb'')))
               (sample_md5 ''pool/main/x.deb'' @ ''_'' @ ''x.deb''))
        = ''/srv/cache/ubuntu/4d/4d5868c5c391a5e39a7ec67483828d1a_x.deb''"
      by (simp add: P path_str_def m1)
    with g show ?thesis by blast
  qed
  have b: "\<exists>p fs'. get_cache_path ?cfg sample_md5 0 ?fs ''ubuntu'' ''dists/jammy/'' = Inr (p, fs')
       \<and> path_str p = ''/srv/cache/ubuntu/76/76afc71c3ed36a44a118fe6b423573ed_index''"
  proof -
    from t2 f2 have g: "get_cache_path ?cfg sample_md5 0 ?fs ''ubuntu'' ''dists/jammy/'' =
        Inr (path_div (path_div (path_div (Path ''/srv/cache'') ''ubuntu'') (take 2 (sample_md5 ''dists/jammy/'')))
               (sample_md5 ''dists/jammy/'' @ ''_'' @ ''index''), f2)"
      by (simp add: l2)
    from t2 pl hx [of "''dists/jammy/''"] have
      "path_str (path_div (path_div (path_div (Path ''/srv/cache'') ''ubuntu'') (take 2 (sample_md5 ''dists/jammy/'')))
               (sample_md5 ''dists/jammy/'' @ ''_'' @ ''index''))
        = path_str (Path ''/srv/cache'') @ ''/'' @ ''ubuntu'' @ ''/'' @ take 2 (sample_md5 ''dists/jammy/'') @ ''/'' @
          sample_md5 ''dists/jammy/'' @ ''_'' @ ''index''"
      by (simp add: l2 P)
    then have "path_str (path_div (path_div (path_div (Path ''/srv/cache'') ''ubuntu'') (take 2 (sample_md5 ''dists/jammy/'')))
               (sample_md5 ''dists/jammy/'' @ ''_'' @ ''index''))
        = ''/srv/cache/ubuntu/76/76afc71c3ed36a44a118fe6b423573ed_index''"
      by (simp add: P path_str_def m2)
    with g show ?thesis by blast
  qed
  from a b show ?thesis by blast
qed

subsection \<open>Directory traversal\<close>

lemma split_on_fields_sublist: "c \<in> set (split_on sep s) \<Longrightarrow> sublist c s"
proof (induction s arbitrary: c)
  case Nil
  then show ?case by simp
next
  case (Cons x xs)
  show ?case
  proof (cases "x = sep")
    case True
    with Cons.prems have "c = [] \<or> c \<in> set (split_on sep xs)" by auto
    then show ?thesis
      using Cons.IH by (auto intro: sublist_Cons_right [THEN iffD2])
  next
    case False
    obtain p ps where sp: "split_on sep xs = p # ps"
      using split_on_nonempty [of sep xs] by (cases "split_on sep xs") auto
    with False Cons.prems have "c = x # p \<or> c \<in> set ps" by auto
    then show ?thesis
    proof
      assume c: "c = x # p"
      have "prefix p xs"
        using sp by (induction xs arbitrary: p ps) (auto split: if_splits list.splits)
      then show ?thesis using c by (simp add: sublist_Cons_right)
    next
      assume "c \<in> set ps"
      with sp Cons.IH [of c] show ?thesis by (simp add: sublist_Cons_right)
    qed
  qed
qed

lemma normalize_foldl_plain:
  "''..'' \<notin> set b \<Longrightarrow>
   foldl (\<lambda>acc c. if c = ''..'' then butlast acc else acc @ [c]) acc b = acc @ b"
  by (induction b arbitrary: acc) auto

lemma normalize_append_plain: "''..'' \<notin> set b \<Longrightarrow> normalize (a @ b) = normalize a @ b"
  by (simp add: normalize_def normalize_foldl_plain)

text \<open>
  The download route does what the specification says: a path that contains \<open>..\<close> or starts with a
  slash is answered with 400, and a file that is sent lies below the storage root.
\<close>

lemma api_download_cache_rejects:
  "str_contains file_path ''..'' \<or> startswith file_path ''/'' \<Longrightarrow>
   \<exists>msg. api_download_cache cfg fs (Some file_path) = Reply 400 msg"
  by (auto simp: api_download_cache_def)

lemma api_download_cache_confined:
  assumes "api_download_cache cfg fs path_arg = SendFile loc name"
  shows "\<exists>storage. storage_path_resolved cfg = Some storage \<and>
           prefix (resolve fs (Path storage)) loc \<and> nodes fs loc \<noteq> None"
proof -
  from assms obtain file_path storage where
    arg: "path_arg = Some file_path" and
    nodots: "\<not> str_contains file_path ''..''" and
    rel: "\<not> startswith file_path ''/''" and
    st: "storage_path_resolved cfg = Some storage" and
    ex: "path_exists fs (path_div (Path storage) file_path)" and
    loc: "loc = resolve fs (path_div (Path storage) file_path)"
    by (auto simp: api_download_cache_def Let_def split: option.splits if_splits)
  have "''..'' \<notin> set (split_on CHR ''/'' file_path)"
    using nodots split_on_fields_sublist [of "''..''" "CHR ''/''" file_path]
    by (auto simp: str_contains_sublist)
  then have plain: "''..'' \<notin> set (parts (Path file_path))"
    by (simp add: Path_def)
  have na: "\<not> anchored (Path file_path)"
    using rel by (simp add: Path_def)
  have "loc = resolve fs (Path storage) @ parts (Path file_path)"
    using na plain
    by (simp add: loc resolve_def path_div_def Let_def normalize_append_plain
          append_assoc [symmetric] del: append_assoc)
  then have "prefix (resolve fs (Path storage)) loc"
    by simp
  moreover have "nodes fs loc \<noteq> None"
    using ex by (simp add: loc path_exists_def)
  ultimately show ?thesis
    using st by blast
qed

text \<open>
  C3: the specification has both cache operations refuse every path that is absolute or contains
  \<open>..\<close> and never touch a file outside the storage root. \<open>delete_cached_file\<close> with the
  storage root \<open>/srv/cache\<close> and the path \<open>../secret.txt\<close> returns true, the route answers
  success, and the file \<open>/srv/secret.txt\<close>, which is not below the root, is gone; the
  absolute path \<open>/srv/cache-old/x\<close> is deleted as well.
\<close>

theorem delete_cached_file_leaves_storage:
  "fst (delete_cached_file
          \<lparr>storage_path_resolved = Some ''/srv/cache'', cache_retention_enabled = None,
           cache_days = None, passthrough_mode = None\<rparr>
          \<lparr>cwd = [], nodes = [[''srv'', ''secret.txt''] \<mapsto>
              \<lparr>is_dir = False, content = [7], st_atime = 0, st_mtime = 0\<rparr>]\<rparr>
          ''../secret.txt'') = True
   \<and> nodes (snd (delete_cached_file
          \<lparr>storage_path_resolved = Some ''/srv/cache'', cache_retention_enabled = None,
           cache_days = None, passthrough_mode = None\<rparr>
          \<lparr>cwd = [], nodes = [[''srv'', ''secret.txt''] \<mapsto>
              \<lparr>is_dir = False, content = [7], st_atime = 0, st_mtime = 0\<rparr>]\<rparr>
          ''../secret.txt'')) [''srv'', ''secret.txt''] = None
   \<and> \<not> prefix (resolve \<lparr>cwd = [], nodes = Map.empty\<rparr> (Path ''/srv/cache'')) [''srv'', ''secret.txt'']
   \<and> fst (api_delete_cache_file
          \<lparr>storage_path_resolved = Some ''/srv/cache'', cache_retention_enabled = None,
           cache_days = None, passthrough_mode = None\<rparr>
          \<lparr>cwd = [], nodes = [[''srv'', ''secret.txt''] \<mapsto>
              \<lparr>is_dir = False, content = [7], st_atime = 0, st_mtime = 0\<rparr>]\<rparr>
          (Some ''../secret.txt'')) = JsonSuccess
   \<and> fst (delete_cached_file
          \<lparr>storage_path_resolved = Some ''/srv/cache'', cache_retention_enabled = None,
           cache_days = None, passthrough_mode = None\<rparr>
          \<lparr>cwd = [], nodes = [[''srv'', ''cache-old'', ''x''] \<mapsto>
              \<lparr>is_dir = False, content = [7], st_atime = 0, st_mtime = 0\<rparr>]\<rparr>
          ''/srv/cache-old/x'') = True"
  by (simp add: delete_cached_file_def api_delete_cache_file_def path_div_def Path_def
        startswith_def path_str_def path_resolve_def resolve_def normalize_def path_exists_def
        unlink_def Let_def)

subsection \<open>Routing of unmanaged requests\<close>




end
